theory Spec2Isabelle
  imports Main "HOL-Library.Char_ord" "HOL-Library.List_Lexorder" "HOL-Library.Multiset"
begin

section \<open>Strings\<close>

text \<open>
  JavaScript strings are modelled as \<open>string\<close>, lists of 8-bit characters read as the
  code units 0..255 (ASCII and Latin-1). Text with code units outside that range is
  not covered.
\<close>

definition digit :: "nat \<Rightarrow> char" where
  "digit n = char_of (48 + n mod 10)"

text \<open>A non-negative number in a template literal: its decimal digits.\<close>

fun decimal :: "nat \<Rightarrow> string" where
  "decimal n = (if n < 10 then [digit n] else decimal (n div 10) @ [digit n])"

declare decimal.simps [simp del]

text \<open>\<^verbatim>\<open>s.substring(i, j)\<close> for \<open>i \<le> j\<close>; indexes past the end are clipped.\<close>

definition substring :: "string \<Rightarrow> nat \<Rightarrow> nat \<Rightarrow> string" where
  "substring s i j = take (j - i) (drop i s)"

text \<open>
  \<^verbatim>\<open>toLowerCase\<close> on code units below 256: A..Z and the Latin-1 capitals
  (192..222 except the multiplication sign 215) move up by 32, the rest stay.
\<close>

definition lower_char :: "char \<Rightarrow> char" where
  "lower_char c =
     (let n = (of_char c :: nat)
      in if (65 \<le> n \<and> n \<le> 90) \<or> (192 \<le> n \<and> n \<le> 222 \<and> n \<noteq> 215)
         then char_of (n + 32) else c)"

definition toLowerCase :: "string \<Rightarrow> string" where
  "toLowerCase s = map lower_char s"

text \<open>
  \<^verbatim>\<open>trim\<close> removes white space and line terminators from both ends; below 256
  these are tab, line feed, vertical tab, form feed, carriage return, space and the
  no-break space.
\<close>

definition is_space :: "char \<Rightarrow> bool" where
  "is_space c = ((of_char c :: nat) \<in> {9, 10, 11, 12, 13, 32, 160})"

definition trim :: "string \<Rightarrow> string" where
  "trim s = rev (dropWhile is_space (rev (dropWhile is_space s)))"

text \<open>\<^verbatim>\<open>s.includes(q)\<close>: \<open>q\<close> occurs in \<open>s\<close> as a contiguous run.\<close>

fun starts_with :: "string \<Rightarrow> string \<Rightarrow> bool" where
  "starts_with s [] = True"
| "starts_with [] (c # q) = False"
| "starts_with (a # s) (c # q) = (a = c \<and> starts_with s q)"

fun includes' :: "string \<Rightarrow> string \<Rightarrow> bool" where
  "includes' [] q = (q = [])"
| "includes' (a # s) q = (starts_with (a # s) q \<or> includes' s q)"

section \<open>The calendar projection\<close>

text \<open>
  The rows of the tables \<^verbatim>\<open>departments\<close> and \<^verbatim>\<open>schedules\<close> as
  \<^verbatim>\<open>transformEvents\<close> and the search read them (src/js/app.js). The field
  \<^verbatim>\<open>id\<close> is written \<open>id'\<close>. Identifiers are carried as the strings under which
  JavaScript uses them as property keys of \<^verbatim>\<open>deptMap\<close>; they are database keys,
  not names of members of \<^verbatim>\<open>Object.prototype\<close>. A column that is null is
  \<open>None\<close>.
\<close>

record department =
  id' :: string
  dept_name :: string
  dept_color :: "string option"

record schedule =
  id' :: string
  title :: string
  start_date :: string
  end_date :: string
  dept_id :: string
  description :: "string option"
  visibility :: string
  is_printable :: bool

text \<open>
  A JavaScript object with string values is given by its own properties, each key
  once, in the order in which they were created; for an object read from JSON text that
  is the order of the text. \<^verbatim>\<open>Object.entries\<close> does not list them in that order: the properties
  whose key is an array index come first, by ascending index, and the others follow in
  the order of creation (ECMA-262, OrdinaryOwnPropertyKeys). A key is an array index
  when it is the decimal numeral, without a leading zero, of a number up to
  \<open>2^32 - 2\<close>: \<^verbatim>\<open>"1225"\<close> is one, \<^verbatim>\<open>"0301"\<close> and \<^verbatim>\<open>"2025-10-06"\<close> are not.
\<close>

definition is_digit :: "char \<Rightarrow> bool" where
  "is_digit c = (48 \<le> (of_char c :: nat) \<and> (of_char c :: nat) \<le> 57)"

definition digits_value :: "string \<Rightarrow> nat" where
  "digits_value k = foldl (\<lambda>n c. 10 * n + (of_char c - 48)) 0 k"

definition is_array_index :: "string \<Rightarrow> bool" where
  "is_array_index k =
     (k \<noteq> [] \<and> list_all is_digit k \<and> (k = ''0'' \<or> hd k \<noteq> CHR ''0'') \<and>
      digits_value k \<le> 4294967294)"

definition Object_entries :: "(string \<times> 'v) list \<Rightarrow> (string \<times> 'v) list" where
  "Object_entries obj =
     sort_key (\<lambda>e. digits_value (fst e)) (filter (\<lambda>e. is_array_index (fst e)) obj) @
     filter (\<lambda>e. \<not> is_array_index (fst e)) obj"

text \<open>
  The settings row. \<^verbatim>\<open>fixed_holidays\<close> and \<^verbatim>\<open>variable_holidays\<close> are
  JavaScript objects (or absent), each given by its properties in the order of creation.
  \<^verbatim>\<open>academic_year\<close> is a number or absent.
\<close>

record settings =
  fixed_holidays :: "(string \<times> string) list option"
  variable_holidays :: "(string \<times> string) list option"
  academic_year :: "nat option"

text \<open>
  The objects pushed to \<^verbatim>\<open>events\<close>. A property the object literal does not have
  is \<open>None\<close>; \<^verbatim>\<open>end\<close> is written \<open>end'\<close>.
\<close>

record extended_props =
  deptId :: string
  description :: "string option"
  visibility :: string
  isPrintable :: bool

record event =
  id' :: "string option"
  title :: string
  start :: string
  end' :: "string option"
  display :: "string option"
  className :: "string option"
  allDay :: "bool option"
  backgroundColor :: "string option"
  borderColor :: "string option"
  extendedProps :: "extended_props option"

definition is_background :: "event \<Rightarrow> bool" where
  "is_background e = (display e = Some ''background'')"

text \<open>\<^verbatim>\<open>xs.forEach(x => events.push(f(x)))\<close>\<close>

definition forEach_push :: "('a \<Rightarrow> event) \<Rightarrow> 'a list \<Rightarrow> event list \<Rightarrow> event list" where
  "forEach_push f xs events = foldl (\<lambda>ev x. ev @ [f x]) events xs"

text \<open>The object pushed for a fixed holiday, for a variable holiday, and for a schedule.\<close>

definition fixed_holiday_event :: "string \<Rightarrow> string \<times> string \<Rightarrow> event" where
  "fixed_holiday_event yearStr entry =
     (case entry of (mmdd, name) \<Rightarrow>
        \<lparr>event.id' = None, title = name,
         start = yearStr @ ''-'' @ substring mmdd 0 2 @ ''-'' @ substring mmdd 2 4,
         end' = None,
         display = Some ''background'',
         className = Some ''holiday-bg-event'',
         allDay = Some True,
         backgroundColor = None, borderColor = None, extendedProps = None\<rparr>)"

definition variable_holiday_event :: "string \<times> string \<Rightarrow> event" where
  "variable_holiday_event entry =
     (case entry of (dateStr, name) \<Rightarrow>
        \<lparr>event.id' = None, title = name,
         start = dateStr,
         end' = None,
         display = Some ''background'',
         className = Some ''holiday-bg-event'',
         allDay = Some True,
         backgroundColor = None, borderColor = None, extendedProps = None\<rparr>)"

text \<open>
  \<^verbatim>\<open>dept.dept_color || '#3788d8'\<close>, where \<^verbatim>\<open>dept = deptMap[s.dept_id] || {}\<close>:
  the department's colour when the department is found and its colour is a non-empty
  string, the default otherwise.
\<close>

definition color_or_default :: "department option \<Rightarrow> string" where
  "color_or_default dept =
     (case dept of
        None \<Rightarrow> ''#3788d8''
      | Some d \<Rightarrow>
          (case dept_color d of
             None \<Rightarrow> ''#3788d8''
           | Some c \<Rightarrow> if c = [] then ''#3788d8'' else c))"

definition schedule_event :: "(string \<rightharpoonup> department) \<Rightarrow> schedule \<Rightarrow> event" where
  "schedule_event deptMap s =
     (let dept = deptMap (schedule.dept_id s)
      in \<lparr>event.id' = Some (schedule.id' s),
          title = schedule.title s,
          start = schedule.start_date s,
          end' = Some (schedule.end_date s),
          display = None, className = None, allDay = None,
          backgroundColor = Some (color_or_default dept),
          borderColor = Some (color_or_default dept),
          extendedProps = Some
            \<lparr>deptId = schedule.dept_id s,
             description = schedule.description s,
             visibility = schedule.visibility s,
             isPrintable = schedule.is_printable s\<rparr>\<rparr>)"

text \<open>
  \<^verbatim>\<open>transformEvents(schedules, settings, departments)\<close>. \<open>now_year\<close> is what
  \<^verbatim>\<open>new Date().getFullYear()\<close> returns at the time of the call; it is read when
  \<^verbatim>\<open>settings.academic_year\<close> is absent or 0. A null \<^verbatim>\<open>settings\<close> is
  \<open>None\<close>.
\<close>

definition transformEvents ::
  "nat \<Rightarrow> schedule list \<Rightarrow> settings option \<Rightarrow> department list \<Rightarrow> event list" where
  "transformEvents now_year schedules settings departments =
     (let events = [];
          events =
            (case settings of
               None \<Rightarrow> events
             | Some st \<Rightarrow>
                 (let fixed = (case fixed_holidays st of None \<Rightarrow> [] | Some f \<Rightarrow> f);
                      yearStr = decimal
                        (case academic_year st of
                           None \<Rightarrow> now_year
                         | Some y \<Rightarrow> if y = 0 then now_year else y);
                      events = forEach_push (fixed_holiday_event yearStr)
                                 (Object_entries fixed) events;
                      variable = (case variable_holidays st of None \<Rightarrow> [] | Some v \<Rightarrow> v);
                      events = forEach_push variable_holiday_event
                                 (Object_entries variable) events
                  in events));
          deptMap = foldl (\<lambda>m d. m(department.id' d \<mapsto> d)) Map.empty departments;
          events = forEach_push (schedule_event deptMap) schedules events
      in events)"

text \<open>
  Names for what \<^verbatim>\<open>transformEvents\<close> computes on the way: the two holiday objects
  (\<^verbatim>\<open>fixed\<close> and \<^verbatim>\<open>variable\<close>, both empty for null settings), the two lists
  of entries it iterates over, the year string, and \<^verbatim>\<open>deptMap\<close>.
\<close>

definition holiday_objects :: "settings option \<Rightarrow> (string \<times> string) list \<times> (string \<times> string) list" where
  "holiday_objects settings =
     (case settings of
        None \<Rightarrow> ([], [])
      | Some st \<Rightarrow>
          ((case fixed_holidays st of None \<Rightarrow> [] | Some f \<Rightarrow> f),
           (case variable_holidays st of None \<Rightarrow> [] | Some v \<Rightarrow> v)))"

definition holidays_of :: "settings option \<Rightarrow> (string \<times> string) list \<times> (string \<times> string) list" where
  "holidays_of settings =
     (Object_entries (fst (holiday_objects settings)),
      Object_entries (snd (holiday_objects settings)))"

definition yearStr_of :: "nat \<Rightarrow> settings option \<Rightarrow> string" where
  "yearStr_of now_year settings =
     decimal (case settings of
        None \<Rightarrow> now_year
      | Some st \<Rightarrow> (case academic_year st of None \<Rightarrow> now_year | Some y \<Rightarrow> if y = 0 then now_year else y))"

definition deptMap_of :: "department list \<Rightarrow> (string \<rightharpoonup> department)" where
  "deptMap_of departments = foldl (\<lambda>m d. m(department.id' d \<mapsto> d)) Map.empty departments"

text \<open>
  Settings under which \<^verbatim>\<open>transformEvents\<close> does not look at the clock, or looks at
  it without using what it reads: null settings, a non-zero academic year, or no fixed
  holidays.
\<close>

definition clock_free :: "settings option \<Rightarrow> bool" where
  "clock_free settings =
     (case settings of
        None \<Rightarrow> True
      | Some st \<Rightarrow>
          (case academic_year st of None \<Rightarrow> False | Some y \<Rightarrow> y \<noteq> 0) \<or>
          (case fixed_holidays st of None \<Rightarrow> True | Some f \<Rightarrow> f = []))"

section \<open>The schedule search\<close>

text \<open>
  The \<^verbatim>\<open>input\<close> listener of the search box in \<^verbatim>\<open>initCalendar\<close>. The result
  is \<open>None\<close> when the listener hides the result box and returns (a query shorter than
  two characters after lower-casing and trimming), and otherwise the list
  \<^verbatim>\<open>matches\<close> it renders.
\<close>

definition search_matches :: "schedule list \<Rightarrow> string \<Rightarrow> schedule list" where
  "search_matches schedules query =
     filter (\<lambda>s. includes' (toLowerCase (schedule.title s)) query \<or>
                 (case schedule.description s of
                    None \<Rightarrow> False
                  | Some d \<Rightarrow> d \<noteq> [] \<and> includes' (toLowerCase d) query))
       schedules"

definition search_input :: "schedule list \<Rightarrow> string \<Rightarrow> schedule list option" where
  "search_input schedules value =
     (let query = trim (toLowerCase value)
      in if length query < 2 then None else Some (search_matches schedules query))"

text \<open>
  The property the search is checked against, in the words of its description:
  \<open>ci_contains t q\<close> says that \<open>q\<close> occurs in \<open>t\<close> as a contiguous run when case is
  ignored, that is, at some position \<open>i\<close> the run of \<open>t\<close> of the length of \<open>q\<close> equals
  \<open>q\<close> after both are lower-cased.
\<close>

definition ci_occurs_at :: "string \<Rightarrow> string \<Rightarrow> nat \<Rightarrow> bool" where
  "ci_occurs_at t q i =
     (i + length q \<le> length t \<and> toLowerCase (substring t i (i + length q)) = toLowerCase q)"

definition ci_contains :: "string \<Rightarrow> string \<Rightarrow> bool" where
  "ci_contains t q = list_ex (ci_occurs_at t q) [0..<Suc (length t)]"

section \<open>Time values of the JavaScript Date object\<close>

text \<open>
  The recurrence generator in \<^verbatim>\<open>openScheduleModal\<close> (src/js/app.js, the
  \<^verbatim>\<open>form.onsubmit\<close> handler) works on JavaScript \<^verbatim>\<open>Date\<close> objects. A
  Date holds a time value: milliseconds since 1970-01-01T00:00Z. The functions below
  are the abstract operations of ECMA-262 (section "Date Objects") that the methods
  used by the source are defined by: \<^verbatim>\<open>getDate\<close>, \<^verbatim>\<open>setDate\<close>,
  \<^verbatim>\<open>getMonth\<close>, \<^verbatim>\<open>setMonth\<close>, \<^verbatim>\<open>getTime\<close>, \<^verbatim>\<open>toISOString\<close>.
  Time values are unbounded integers here; the range check of ECMA-262 (TimeClip, about
  275000 years either side of 1970) is never reached from four-digit years.
\<close>

definition msPerDay :: int where
  "msPerDay = 86400000"

definition Day :: "int \<Rightarrow> int" where
  "Day t = t div msPerDay"

definition TimeWithinDay :: "int \<Rightarrow> int" where
  "TimeWithinDay t = t mod msPerDay"

definition DaysInYear :: "int \<Rightarrow> int" where
  "DaysInYear y =
     (if y mod 4 \<noteq> 0 then 365
      else if y mod 100 \<noteq> 0 then 366
      else if y mod 400 \<noteq> 0 then 365
      else 366)"

definition DayFromYear :: "int \<Rightarrow> int" where
  "DayFromYear y =
     365 * (y - 1970) + (y - 1969) div 4 - (y - 1901) div 100 + (y - 1601) div 400"

definition TimeFromYear :: "int \<Rightarrow> int" where
  "TimeFromYear y = msPerDay * DayFromYear y"

text \<open>
  ECMA-262 defines \<open>YearFromTime t\<close> as the largest \<open>y\<close> with
  \<open>TimeFromYear y \<le> t\<close>. The executable form estimates the year from the mean
  length of a Gregorian year (146097 days in 400 years) and corrects the estimate by at
  most one; lemma \<open>YearFromTime_largest\<close> below shows that it is that largest year.
\<close>

definition YearFromTime :: "int \<Rightarrow> int" where
  "YearFromTime t =
     (let d = Day t; y = 1970 + (400 * d) div 146097
      in if d < DayFromYear y then y - 1
         else if DayFromYear (y + 1) \<le> d then y + 1
         else y)"

definition InLeapYear :: "int \<Rightarrow> int" where
  "InLeapYear t = (if DaysInYear (YearFromTime t) = 366 then 1 else 0)"

definition DayWithinYear :: "int \<Rightarrow> int" where
  "DayWithinYear t = Day t - DayFromYear (YearFromTime t)"

definition MonthFromTime :: "int \<Rightarrow> int" where
  "MonthFromTime t =
     (let d = DayWithinYear t; l = InLeapYear t
      in if d < 31 then 0
         else if d < 59 + l then 1
         else if d < 90 + l then 2
         else if d < 120 + l then 3
         else if d < 151 + l then 4
         else if d < 181 + l then 5
         else if d < 212 + l then 6
         else if d < 243 + l then 7
         else if d < 273 + l then 8
         else if d < 304 + l then 9
         else if d < 334 + l then 10
         else 11)"

definition DateFromTime :: "int \<Rightarrow> int" where
  "DateFromTime t =
     (let d = DayWithinYear t; l = InLeapYear t; m = MonthFromTime t
      in if m = 0 then d + 1
         else if m = 1 then d - 30
         else if m = 2 then d - 58 - l
         else if m = 3 then d - 89 - l
         else if m = 4 then d - 119 - l
         else if m = 5 then d - 150 - l
         else if m = 6 then d - 180 - l
         else if m = 7 then d - 211 - l
         else if m = 8 then d - 242 - l
         else if m = 9 then d - 272 - l
         else if m = 10 then d - 303 - l
         else d - 333 - l)"

text \<open>
  \<open>DayFromMonth m l\<close> is the day within the year on which month \<open>m\<close> (0 = January)
  starts, in a year with \<open>l\<close> leap days: the boundaries of the table of
  \<open>MonthFromTime\<close>.
\<close>

definition DayFromMonth :: "int \<Rightarrow> int \<Rightarrow> int" where
  "DayFromMonth m l =
     (if m = 0 then 0
      else if m = 1 then 31
      else if m = 2 then 59 + l
      else if m = 3 then 90 + l
      else if m = 4 then 120 + l
      else if m = 5 then 151 + l
      else if m = 6 then 181 + l
      else if m = 7 then 212 + l
      else if m = 8 then 243 + l
      else if m = 9 then 273 + l
      else if m = 10 then 304 + l
      else 334 + l)"

text \<open>
  \<open>MakeDay year month date\<close>: the day number of the first day of month
  \<open>month mod 12\<close> of year \<open>year + month div 12\<close>, plus \<open>date - 1\<close>. A month outside
  0..11 carries into the year and a date outside the month carries into the following
  (or preceding) months: this is what \<^verbatim>\<open>setDate\<close> and \<^verbatim>\<open>setMonth\<close> rely
  on.
\<close>

definition MakeDay :: "int \<Rightarrow> int \<Rightarrow> int \<Rightarrow> int" where
  "MakeDay year month date =
     (let ym = year + month div 12; mn = month mod 12
      in DayFromYear ym + DayFromMonth mn (if DaysInYear ym = 366 then 1 else 0) + date - 1)"

definition MakeDate :: "int \<Rightarrow> int \<Rightarrow> int" where
  "MakeDate day time = day * msPerDay + time"

text \<open>
  Local time. A time zone is given by the operation \<open>LocalTZA(t, isUTC)\<close> of ECMA-262:
  the offset of local time from UTC in milliseconds, in effect at the UTC time value
  \<open>t\<close> when \<open>isUTC\<close> is true, and at the local time value \<open>t\<close> when it is false. The
  getters read the Date through \<open>LocalTime\<close>; the setters compute in local time and go
  back through \<open>UTC\<close>.
\<close>

type_synonym zone = "int \<Rightarrow> bool \<Rightarrow> int"

definition LocalTime :: "zone \<Rightarrow> int \<Rightarrow> int" where
  "LocalTime tz t = t + tz t True"

definition UTC :: "zone \<Rightarrow> int \<Rightarrow> int" where
  "UTC tz t = t - tz t False"

text \<open>A zone whose offset never changes, such as Asia/Seoul (32400000).\<close>

definition constant_offset :: "int \<Rightarrow> zone" where
  "constant_offset tza = (\<lambda>t isUTC. tza)"

text \<open>
  America/New_York as it is during 2025: five hours behind UTC, and four hours behind
  between 2025-03-09T07:00Z and 2025-11-02T06:00Z. In local time the change is from
  02:00 to 03:00 on March 9 and from 02:00 back to 01:00 on November 2; a local time
  that is skipped or occurs twice is read with the offset in effect before the change.
\<close>

definition America_New_York_2025 :: zone where
  "America_New_York_2025 =
     (\<lambda>t isUTC.
        if isUTC
        then (if 1741503600000 \<le> t \<and> t < 1762063200000 then - 14400000 else - 18000000)
        else (if 1741489200000 \<le> t \<and> t < 1762048800000 then - 14400000 else - 18000000))"

definition getDate :: "zone \<Rightarrow> int \<Rightarrow> int" where
  "getDate tz tv = DateFromTime (LocalTime tz tv)"

definition getMonth :: "zone \<Rightarrow> int \<Rightarrow> int" where
  "getMonth tz tv = MonthFromTime (LocalTime tz tv)"

text \<open>The setters mutate the Date; the model returns the new time value.\<close>

definition setDate :: "zone \<Rightarrow> int \<Rightarrow> int \<Rightarrow> int" where
  "setDate tz tv dt =
     (let t = LocalTime tz tv;
          newDate = MakeDate (MakeDay (YearFromTime t) (MonthFromTime t) dt) (TimeWithinDay t)
      in UTC tz newDate)"

definition setMonth :: "zone \<Rightarrow> int \<Rightarrow> int \<Rightarrow> int" where
  "setMonth tz tv m =
     (let t = LocalTime tz tv;
          newDate = MakeDate (MakeDay (YearFromTime t) m (DateFromTime t)) (TimeWithinDay t)
      in UTC tz newDate)"

section \<open>Calendar dates and their strings\<close>

text \<open>
  The form's date fields (\<^verbatim>\<open>sched-start\<close>, \<^verbatim>\<open>sched-end\<close>,
  \<^verbatim>\<open>sched-until\<close>) hold strings \<^verbatim>\<open>YYYY-MM-DD\<close>. The model carries such a
  value as year, month (1..12) and day, and renders it with \<open>date_str\<close> where the
  source compares the strings themselves.
\<close>

record date =
  year :: int
  month :: int
  day :: int

definition DaysInMonth :: "int \<Rightarrow> int \<Rightarrow> int" where
  "DaysInMonth y m =
     (if m = 2 then (if DaysInYear y = 366 then 29 else 28)
      else if m = 4 \<or> m = 6 \<or> m = 9 \<or> m = 11 then 30
      else 31)"

definition valid_date :: "date \<Rightarrow> bool" where
  "valid_date d =
     (1 \<le> year d \<and> year d \<le> 9999 \<and> 1 \<le> month d \<and> month d \<le> 12 \<and>
      1 \<le> day d \<and> day d \<le> DaysInMonth (year d) (month d))"

definition pad2 :: "nat \<Rightarrow> string" where
  "pad2 n = [digit (n div 10), digit n]"

definition pad4 :: "nat \<Rightarrow> string" where
  "pad4 n = pad2 (n div 100) @ pad2 (n mod 100)"

definition date_str :: "date \<Rightarrow> string" where
  "date_str d =
     pad4 (nat (year d)) @ ''-'' @ pad2 (nat (month d)) @ ''-'' @ pad2 (nat (day d))"

text \<open>Calendar order on dates: year, then month, then day.\<close>

definition date_less :: "date \<Rightarrow> date \<Rightarrow> bool" where
  "date_less a b =
     (year a < year b \<or>
      year a = year b \<and> (month a < month b \<or> month a = month b \<and> day a < day b))"

definition date_le :: "date \<Rightarrow> date \<Rightarrow> bool" where
  "date_le a b = (date_less a b \<or> a = b)"

text \<open>
  \<^verbatim>\<open>new Date("YYYY-MM-DD")\<close>: a date-only string is read as midnight UTC of that
  day.
\<close>

definition new_Date :: "date \<Rightarrow> int" where
  "new_Date d = MakeDate (MakeDay (year d) (month d - 1) (day d)) 0"

text \<open>
  \<^verbatim>\<open>toISOString().split('T')[0]\<close>: the UTC calendar date of a time value.
\<close>

definition toISODate :: "int \<Rightarrow> date" where
  "toISODate tv = \<lparr>year = YearFromTime tv, month = MonthFromTime tv + 1, day = DateFromTime tv\<rparr>"

text \<open>Whole days from one calendar date to another.\<close>

definition days_between :: "date \<Rightarrow> date \<Rightarrow> int" where
  "days_between a b = Day (new_Date b) - Day (new_Date a)"

section \<open>The recurrence generator\<close>

text \<open>
  The rows collected in \<^verbatim>\<open>batchData\<close> are \<^verbatim>\<open>{...baseData, start_date,
  end_date}\<close>. The generator never reads \<^verbatim>\<open>baseData\<close> (title, department,
  visibility, description, printable flag, author), so it is a value of any type
  \<open>'b\<close> carried unchanged in each row.
\<close>

record 'b batch_row =
  base :: 'b
  start_date :: date
  end_date :: date

datatype error = InvalidRecurrenceRange

text \<open>
  The "Next Step" of the loop body: the cursor \<^verbatim>\<open>curr\<close> (a Date mutated in place
  in the source) is moved by local-time day or month arithmetic. A frequency other than
  the three known strings leaves the cursor where it is.
\<close>

definition next_step :: "zone \<Rightarrow> string \<Rightarrow> int \<Rightarrow> int" where
  "next_step tz freq cur =
     (if freq = ''weekly'' then setDate tz cur (getDate tz cur + 7)
      else if freq = ''biweekly'' then setDate tz cur (getDate tz cur + 14)
      else if freq = ''monthly'' then setMonth tz cur (getMonth tz cur + 1)
      else cur)"

text \<open>
  The \<^verbatim>\<open>while (curr <= until && limit < 52)\<close> loop. The state is the cursor
  \<open>cur\<close>, the counter \<open>limit\<close> and the rows pushed so far; the function returns the
  state in which the loop exits.
\<close>

function expand_loop ::
  "zone \<Rightarrow> string \<Rightarrow> int \<Rightarrow> int \<Rightarrow> 'b \<Rightarrow> int \<Rightarrow> nat \<Rightarrow> 'b batch_row list
     \<Rightarrow> int \<times> nat \<times> 'b batch_row list" where
  "expand_loop tz freq until durationMs baseData cur limit batchData =
     (if cur \<le> until \<and> limit < 52 then
        (let loopStart = toISODate cur;
             loopEnd = toISODate (cur + durationMs);
             batchData' = batchData @
               [\<lparr>base = baseData, start_date = loopStart, end_date = loopEnd\<rparr>];
             cur' = next_step tz freq cur
         in expand_loop tz freq until durationMs baseData cur' (limit + 1) batchData')
      else (cur, limit, batchData))"
  by pat_completeness auto
termination
  by (relation "measure (\<lambda>(tz, freq, until, durationMs, baseData, cur, limit, batchData). 52 - limit)")
     auto

text \<open>
  The row the loop pushes in its \<open>i\<close>-th iteration (counting from 0) when started
  with the cursor at \<open>cur\<close>: the cursor has been stepped \<open>i\<close> times.
\<close>

definition series_row :: "zone \<Rightarrow> string \<Rightarrow> int \<Rightarrow> 'b \<Rightarrow> int \<Rightarrow> nat \<Rightarrow> 'b batch_row" where
  "series_row tz freq durationMs baseData cur i =
     \<lparr>base = baseData, start_date = toISODate ((next_step tz freq ^^ i) cur),
      end_date = toISODate ((next_step tz freq ^^ i) cur + durationMs)\<rparr>"

text \<open>
  The recurring branch of the submit handler: the guard on the two strings, the
  duration, the loop, and the fallback to a single row when the loop pushed nothing.
  The guard's \<^verbatim>\<open>alert\<close> and early \<^verbatim>\<open>return\<close> (nothing is inserted) is the
  error value.
\<close>

definition expand ::
  "zone \<Rightarrow> 'b \<Rightarrow> date \<Rightarrow> date \<Rightarrow> date \<Rightarrow> string \<Rightarrow> error + 'b batch_row list" where
  "expand tz baseData startDate endDate untilDate freq =
     (if date_str untilDate \<le> date_str startDate then Inl InvalidRecurrenceRange
      else
        (let d1 = new_Date startDate;
             d2 = new_Date endDate;
             durationMs = d2 - d1;
             cur = new_Date startDate;
             until = new_Date untilDate;
             (cur', limit', batchData) =
                expand_loop tz freq until durationMs baseData cur 0 []
         in Inr (if length batchData = 0
                 then [\<lparr>base = baseData, start_date = startDate, end_date = endDate\<rparr>]
                 else batchData)))"

text \<open>
  The whole of the handler's construction of \<^verbatim>\<open>batchData\<close>: without
  recurrence (an edit, or the repeat box unchecked) it is the single row of the form.
\<close>

definition onsubmit_batchData ::
  "zone \<Rightarrow> bool \<Rightarrow> 'b \<Rightarrow> date \<Rightarrow> date \<Rightarrow> date \<Rightarrow> string \<Rightarrow> error + 'b batch_row list" where
  "onsubmit_batchData tz isRecurring baseData startDate endDate untilDate freq =
     (if isRecurring then expand tz baseData startDate endDate untilDate freq
      else Inr [\<lparr>base = baseData, start_date = startDate, end_date = endDate\<rparr>])"

text \<open>
  What the monthly step does to a calendar date, written on dates: the same day of the
  next month when that month has such a day, and otherwise as many days into the month
  after as the day exceeds the next month's length.
\<close>

definition next_month :: "int \<times> int \<Rightarrow> int \<times> int" where
  "next_month ym = (case ym of (y, m) \<Rightarrow> if m = 12 then (y + 1, 1) else (y, m + 1))"

definition month_later :: "date \<Rightarrow> date" where
  "month_later d =
     (let (y1, m1) = next_month (year d, month d)
      in if day d \<le> DaysInMonth y1 m1 then \<lparr>year = y1, month = m1, day = day d\<rparr>
         else (let (y2, m2) = next_month (y1, m1)
               in \<lparr>year = y2, month = m2, day = day d - DaysInMonth y1 m1\<rparr>))"

section \<open>Example data\<close>

text \<open>
  A settings row, a department and three schedules, used to instantiate the theorems
  about the projection and the search. The fixed holidays are in the order of the JSON
  text, the code 0301 before the code 1225. The second schedule names a department that
  is not in the list.
\<close>

definition example_settings :: settings where
  "example_settings =
     \<lparr>fixed_holidays = Some [(''0301'', ''Independence Day''), (''1225'', ''Christmas'')],
      variable_holidays = Some [(''2025-10-06'', ''Chuseok'')],
      academic_year = Some 2025\<rparr>"

definition example_departments :: "department list" where
  "example_departments =
     [\<lparr>department.id' = ''2'', dept_name = ''Science'', dept_color = Some ''#ff0000''\<rparr>]"

definition example_schedules :: "schedule list" where
  "example_schedules =
     [\<lparr>schedule.id' = ''7'', schedule.title = ''Staff Meeting'',
       schedule.start_date = ''2025-03-03'', schedule.end_date = ''2025-03-04'',
       dept_id = ''2'', schedule.description = None,
       schedule.visibility = ''public'', is_printable = True\<rparr>,
      \<lparr>schedule.id' = ''8'', schedule.title = ''Sports Day'',
       schedule.start_date = ''2025-05-02'', schedule.end_date = ''2025-05-03'',
       dept_id = ''9'', schedule.description = Some ''Parents meet teachers'',
       schedule.visibility = ''internal'', is_printable = False\<rparr>,
      \<lparr>schedule.id' = ''9'', schedule.title = ''Exam'',
       schedule.start_date = ''2025-06-20'', schedule.end_date = ''2025-06-21'',
       dept_id = ''2'', schedule.description = Some '''',
       schedule.visibility = ''dept'', is_printable = True\<rparr>]"

section \<open>Properties of the time-value operations\<close>

lemma div_succ_int:
  fixes a n :: int
  assumes "0 < n"
  shows "(a + 1) div n = a div n + (if (a + 1) mod n = 0 then 1 else 0)"
proof (cases "a mod n = n - 1")
  case True
  have a: "a = n * (a div n) + a mod n" by simp
  have e: "a + 1 = n * (a div n + 1) + 0" using a True by (simp add: algebra_simps)
  have "(a + 1) div n = a div n + 1" using int_div_pos_eq[OF e] assms by simp
  moreover have "(a + 1) mod n = 0" using int_mod_pos_eq[OF e] assms by simp
  ultimately show ?thesis by simp
next
  case False
  have r: "0 \<le> a mod n" "a mod n < n" using assms by simp_all
  have a: "a = n * (a div n) + a mod n" by simp
  have e: "a + 1 = n * (a div n) + (a mod n + 1)" using a by simp
  have b: "0 \<le> a mod n + 1" "a mod n + 1 < n" using r False by linarith+
  have "(a + 1) div n = a div n" using int_div_pos_eq[OF e b] .
  moreover have "(a + 1) mod n = a mod n + 1" using int_mod_pos_eq[OF e b] .
  ultimately show ?thesis using r by simp
qed

lemma DayFromYear_step_aux:
  fixes y :: int
  shows "((y - 1969) + 1) mod 4 = y mod 4" "((y - 1901) + 1) mod 100 = y mod 100"
     "((y - 1601) + 1) mod 400 = y mod 400"
proof -
  have "y - 1969 + 1 = 4 * (- 492) + y" by simp
  then show "((y - 1969) + 1) mod 4 = y mod 4" by (simp only: mod_mult_self4)
  have "y - 1901 + 1 = 100 * (- 19) + y" by simp
  then show "((y - 1901) + 1) mod 100 = y mod 100" by (simp only: mod_mult_self4)
  have "y - 1601 + 1 = 400 * (- 4) + y" by simp
  then show "((y - 1601) + 1) mod 400 = y mod 400" by (simp only: mod_mult_self4)
qed

lemma leap_mods:
  fixes y :: int
  shows "y mod 100 = 0 \<Longrightarrow> y mod 4 = 0" "y mod 400 = 0 \<Longrightarrow> y mod 100 = 0"
proof -
  have a: "(4::int) dvd 100" by simp
  have b: "(100::int) dvd 400" by simp
  show "y mod 100 = 0 \<Longrightarrow> y mod 4 = 0" using a by (meson dvd_trans mod_eq_0_iff_dvd)
  show "y mod 400 = 0 \<Longrightarrow> y mod 100 = 0" using b by (meson dvd_trans mod_eq_0_iff_dvd)
qed

lemma DayFromYear_step: "DayFromYear (y + 1) = DayFromYear y + DaysInYear y"
proof -
  have e: "y + 1 - 1969 = (y - 1969) + 1" "y + 1 - 1901 = (y - 1901) + 1"
    "y + 1 - 1601 = (y - 1601) + 1" "y + 1 - 1970 = (y - 1970) + 1"
    by simp_all
  have d4: "(y + 1 - 1969) div 4 = (y - 1969) div 4 + (if y mod 4 = 0 then 1 else 0)"
    unfolding e using div_succ_int[of 4 "y - 1969"] by (simp only: DayFromYear_step_aux)
  have d100: "(y + 1 - 1901) div 100 = (y - 1901) div 100 + (if y mod 100 = 0 then 1 else 0)"
    unfolding e using div_succ_int[of 100 "y - 1901"] by (simp only: DayFromYear_step_aux)
  have d400: "(y + 1 - 1601) div 400 = (y - 1601) div 400 + (if y mod 400 = 0 then 1 else 0)"
    unfolding e using div_succ_int[of 400 "y - 1601"] by (simp only: DayFromYear_step_aux)
  show ?thesis
    unfolding DayFromYear_def DaysInYear_def d4 d100 d400
    using leap_mods[of y] by auto
qed

lemma DaysInYear_bounds: "365 \<le> DaysInYear y" "DaysInYear y \<le> 366"
  by (simp_all add: DaysInYear_def)

lemma DayFromYear_mono: "a \<le> b \<Longrightarrow> DayFromYear a \<le> DayFromYear b"
proof (induction b rule: int_ge_induct)
  case base
  show ?case by simp
next
  case (step i)
  then show ?case using DayFromYear_step[of i] DaysInYear_bounds(1)[of i] by linarith
qed

lemma DayFromYear_strict: "a < b \<Longrightarrow> DayFromYear a + DaysInYear a \<le> DayFromYear b"
  using DayFromYear_mono[of "a + 1" b] DayFromYear_step[of a] by simp

lemma MonthFromTime_range: "0 \<le> MonthFromTime t \<and> MonthFromTime t \<le> 11"
  by (simp add: MonthFromTime_def Let_def)

lemma DayFromMonth_fields:
  "DayFromMonth (MonthFromTime t) (InLeapYear t) + DateFromTime t - 1 = DayWithinYear t"
  by (simp add: DateFromTime_def MonthFromTime_def DayFromMonth_def Let_def)

lemma MakeDay_fields:
  "MakeDay (YearFromTime t) (MonthFromTime t) (DateFromTime t + k) = Day t + k"
proof -
  have d: "MonthFromTime t div 12 = 0" and m: "MonthFromTime t mod 12 = MonthFromTime t"
    using MonthFromTime_range[of t] by simp_all
  have "MakeDay (YearFromTime t) (MonthFromTime t) (DateFromTime t + k)
      = DayFromYear (YearFromTime t) + DayFromMonth (MonthFromTime t) (InLeapYear t) + (DateFromTime t + k) - 1"
    unfolding MakeDay_def Let_def d m InLeapYear_def by simp
  also have "\<dots> = DayFromYear (YearFromTime t) + DayWithinYear t + k"
    using DayFromMonth_fields[of t] by linarith
  finally show ?thesis by (simp add: DayWithinYear_def)
qed


lemma div_bounds_int:
  fixes a n :: int
  assumes "0 < n"
  shows "n * (a div n) \<le> a" "a < n * (a div n) + n"
proof -
  have "n * (a div n) + a mod n = a" by simp
  moreover have "0 \<le> a mod n" "a mod n < n" using assms by simp_all
  ultimately show "n * (a div n) \<le> a" "a < n * (a div n) + n" by linarith+
qed

lemma DayFromYear_estimate:
  "146097 * (y - 1970) - 506 \<le> 400 * DayFromYear y"
  "400 * DayFromYear y \<le> 146097 * (y - 1970) + 589"
proof -
  define A where "A = (y - 1969) div 4"
  define B where "B = (y - 1901) div 100"
  define C where "C = (y - 1601) div 400"
  have a: "4 * A \<le> y - 1969" "y - 1969 < 4 * A + 4"
    unfolding A_def by (rule div_bounds_int, simp)+
  have b: "100 * B \<le> y - 1901" "y - 1901 < 100 * B + 100"
    unfolding B_def by (rule div_bounds_int, simp)+
  have c: "400 * C \<le> y - 1601" "y - 1601 < 400 * C + 400"
    unfolding C_def by (rule div_bounds_int, simp)+
  have d: "DayFromYear y = 365 * (y - 1970) + A - B + C"
    by (simp add: DayFromYear_def A_def B_def C_def)
  show "146097 * (y - 1970) - 506 \<le> 400 * DayFromYear y"
    unfolding d using a b c by (simp add: algebra_simps)
  show "400 * DayFromYear y \<le> 146097 * (y - 1970) + 589"
    unfolding d using a b c by (simp add: algebra_simps)
qed

lemma YearFromTime_bounds:
  "DayFromYear (YearFromTime t) \<le> Day t" "Day t < DayFromYear (YearFromTime t + 1)"
proof -
  define d where "d = Day t"
  define q where "q = (400 * d) div 146097"
  have q: "146097 * q \<le> 400 * d" "400 * d < 146097 * q + 146097"
    unfolding q_def by (rule div_bounds_int, simp)+
  have lo: "400 * DayFromYear (1970 + q - 1) \<le> 146097 * q - 145508"
    using DayFromYear_estimate(2)[of "1970 + q - 1"] by simp
  have hi: "146097 * q + 291688 \<le> 400 * DayFromYear (1970 + q + 1 + 1)"
    using DayFromYear_estimate(1)[of "1970 + q + 1 + 1"] by simp
  have y: "YearFromTime t =
      (if d < DayFromYear (1970 + q) then 1970 + q - 1
       else if DayFromYear (1970 + q + 1) \<le> d then 1970 + q + 1 else 1970 + q)"
    by (simp add: YearFromTime_def Let_def d_def q_def)
  show "DayFromYear (YearFromTime t) \<le> Day t"
    unfolding y d_def[symmetric] using q lo by auto
  show "Day t < DayFromYear (YearFromTime t + 1)"
    unfolding y d_def[symmetric] using q hi by auto
qed

lemma Day_decomp: "t = msPerDay * Day t + TimeWithinDay t"
  by (simp add: Day_def TimeWithinDay_def)

lemma TimeWithinDay_range: "0 \<le> TimeWithinDay t" "TimeWithinDay t < 86400000"
  by (simp_all add: TimeWithinDay_def msPerDay_def)

lemma le_Day_iff: "k \<le> Day t \<longleftrightarrow> msPerDay * k \<le> t"
proof -
  have "t = 86400000 * Day t + TimeWithinDay t"
    using Day_decomp[of t] by (simp add: msPerDay_def)
  then show ?thesis
    using TimeWithinDay_range[of t] unfolding msPerDay_def by linarith
qed

lemma YearFromTime_largest:
  "TimeFromYear (YearFromTime t) \<le> t \<and> (\<forall>y. TimeFromYear y \<le> t \<longrightarrow> y \<le> YearFromTime t)"
proof (intro conjI allI impI)
  show "TimeFromYear (YearFromTime t) \<le> t"
    unfolding TimeFromYear_def le_Day_iff[symmetric] by (rule YearFromTime_bounds)
next
  fix y
  assume "TimeFromYear y \<le> t"
  then have a: "DayFromYear y \<le> Day t"
    by (simp add: TimeFromYear_def le_Day_iff)
  show "y \<le> YearFromTime t"
  proof (rule ccontr)
    assume "\<not> y \<le> YearFromTime t"
    then have "YearFromTime t + 1 \<le> y" by simp
    then have "DayFromYear (YearFromTime t + 1) \<le> DayFromYear y" by (rule DayFromYear_mono)
    with a YearFromTime_bounds(2)[of t] show False by linarith
  qed
qed

lemma DayWithinYear_range:
  "0 \<le> DayWithinYear t" "DayWithinYear t < DaysInYear (YearFromTime t)"
  using YearFromTime_bounds[of t] DayFromYear_step[of "YearFromTime t"]
  by (simp_all add: DayWithinYear_def)

section \<open>The order of date strings is the order of dates\<close>

lemma of_char_digit: "of_char (digit n) = (48 + n mod 10 :: nat)"
  by (simp add: digit_def)

lemma digit_less: "digit a < digit b \<longleftrightarrow> a mod 10 < b mod 10"
  by (simp add: less_char_def of_char_digit)

lemma digit_eq: "digit a = digit b \<longleftrightarrow> a mod 10 = b mod 10"
proof
  assume "digit a = digit b"
  then have "(of_char (digit a) :: nat) = of_char (digit b)" by simp
  then show "a mod 10 = b mod 10" by (simp add: of_char_digit)
next
  assume "a mod 10 = b mod 10" then show "digit a = digit b" by (simp add: digit_def)
qed

lemma two_digits:
  fixes q1 r1 q2 r2 :: nat
  assumes "r1 < 10" "r2 < 10"
  shows "(q1 < q2 \<or> q1 = q2 \<and> r1 < r2) \<longleftrightarrow> 10 * q1 + r1 < 10 * q2 + r2"
    and "(q1 = q2 \<and> r1 = r2) \<longleftrightarrow> 10 * q1 + r1 = 10 * q2 + r2"
proof -
  show "(q1 < q2 \<or> q1 = q2 \<and> r1 < r2) \<longleftrightarrow> 10 * q1 + r1 < 10 * q2 + r2"
    using assms by linarith
  have "10 * q1 + r1 = 10 * q2 + r2 \<Longrightarrow> q1 = q2" using assms by linarith
  then show "(q1 = q2 \<and> r1 = r2) \<longleftrightarrow> 10 * q1 + r1 = 10 * q2 + r2" by auto
qed

lemma pad2_less: 
  assumes "a < 100" "b < 100" shows "pad2 a < pad2 b \<longleftrightarrow> a < b"
proof -
  have qa: "a div 10 mod 10 = a div 10" and qb: "b div 10 mod 10 = b div 10"
    using assms by simp_all
  have "pad2 a < pad2 b \<longleftrightarrow> (a div 10 < b div 10 \<or> a div 10 = b div 10 \<and> a mod 10 < b mod 10)"
    unfolding pad2_def by (simp add: digit_less digit_eq qa qb)
  also have "\<dots> \<longleftrightarrow> 10 * (a div 10) + a mod 10 < 10 * (b div 10) + b mod 10"
    by (rule two_digits) simp_all
  finally show ?thesis by simp
qed

lemma pad2_eq:
  assumes "a < 100" "b < 100" shows "pad2 a = pad2 b \<longleftrightarrow> a = b"
proof -
  have qa: "a div 10 mod 10 = a div 10" and qb: "b div 10 mod 10 = b div 10"
    using assms by simp_all
  have "pad2 a = pad2 b \<longleftrightarrow> (a div 10 = b div 10 \<and> a mod 10 = b mod 10)"
    unfolding pad2_def by (simp add: digit_eq qa qb)
  also have "\<dots> \<longleftrightarrow> 10 * (a div 10) + a mod 10 = 10 * (b div 10) + b mod 10"
    by (rule two_digits) simp_all
  finally show ?thesis by simp
qed

lemma append_less_same_length:
  fixes u u' v v' :: "'a::linorder list"
  shows "length u = length u' \<Longrightarrow> u @ v < u' @ v' \<longleftrightarrow> u < u' \<or> u = u' \<and> v < v'"
  by (induction u u' rule: list_induct2) auto

lemma length_pad2: "length (pad2 n) = 2"
  by (simp add: pad2_def)

lemma pad4_less:
  assumes "a < 10000" "b < 10000" shows "pad4 a < pad4 b \<longleftrightarrow> a < b"
proof -
  have r: "a div 100 < 100" "b div 100 < 100" "a mod 100 < 100" "b mod 100 < 100"
    using assms by simp_all
  have "pad4 a < pad4 b \<longleftrightarrow>
      (a div 100 < b div 100 \<or> a div 100 = b div 100 \<and> a mod 100 < b mod 100)"
    unfolding pad4_def
    by (simp add: append_less_same_length length_pad2 pad2_less r pad2_eq)
  also have "\<dots> \<longleftrightarrow> 100 * (a div 100) + a mod 100 < 100 * (b div 100) + b mod 100"
    using r(3,4) by linarith
  finally show ?thesis by simp
qed

lemma pad4_eq:
  assumes "a < 10000" "b < 10000" shows "pad4 a = pad4 b \<longleftrightarrow> a = b"
proof -
  have r: "a div 100 < 100" "b div 100 < 100" "a mod 100 < 100" "b mod 100 < 100"
    using assms by simp_all
  have "pad4 a = pad4 b \<longleftrightarrow> (a div 100 = b div 100 \<and> a mod 100 = b mod 100)"
    unfolding pad4_def by (simp add: length_pad2 pad2_eq r)
  also have "\<dots> \<longleftrightarrow> a = b"
    by (metis div_mult_mod_eq)
  finally show ?thesis .
qed

lemma length_pad4: "length (pad4 n) = 4"
  by (simp add: pad4_def length_pad2)

lemma valid_date_ranges:
  assumes "valid_date d"
  shows "nat (year d) < 10000" "nat (month d) < 100" "nat (day d) < 100"
    "0 \<le> year d" "0 \<le> month d" "0 \<le> day d"
  using assms by (auto simp: valid_date_def DaysInMonth_def split: if_splits)

lemma date_str_less:
  assumes "valid_date a" "valid_date b"
  shows "date_str a < date_str b \<longleftrightarrow> date_less a b"
proof -
  note ra = valid_date_ranges[OF assms(1)] and rb = valid_date_ranges[OF assms(2)]
  have "date_str a < date_str b \<longleftrightarrow>
     (nat (year a) < nat (year b) \<or> nat (year a) = nat (year b) \<and>
        (nat (month a) < nat (month b) \<or> nat (month a) = nat (month b) \<and>
           nat (day a) < nat (day b)))"
    unfolding date_str_def
    by (simp add: append_less_same_length length_pad4 length_pad2
        pad4_less pad4_eq pad2_less pad2_eq ra rb)
  also have "\<dots> \<longleftrightarrow> date_less a b"
    unfolding date_less_def using ra(4-6) rb(4-6) by auto
  finally show ?thesis .
qed

lemma date_str_eq:
  assumes "valid_date a" "valid_date b"
  shows "date_str a = date_str b \<longleftrightarrow> a = b"
proof -
  note ra = valid_date_ranges[OF assms(1)] and rb = valid_date_ranges[OF assms(2)]
  have "date_str a = date_str b \<longleftrightarrow>
     (nat (year a) = nat (year b) \<and> nat (month a) = nat (month b) \<and> nat (day a) = nat (day b))"
    unfolding date_str_def
    by (simp add: length_pad4 length_pad2 pad4_eq pad2_eq ra rb)
  also have "\<dots> \<longleftrightarrow> a = b"
    using ra(4-6) rb(4-6) by auto
  finally show ?thesis .
qed

lemma date_str_le:
  assumes "valid_date a" "valid_date b"
  shows "date_str a \<le> date_str b \<longleftrightarrow> date_le a b"
  unfolding date_le_def le_less date_str_less[OF assms] date_str_eq[OF assms] ..

section \<open>Dates and day numbers\<close>

lemma month_cases:
  fixes m :: int
  assumes "1 \<le> m" "m \<le> 12"
  shows "m = 1 \<or> m = 2 \<or> m = 3 \<or> m = 4 \<or> m = 5 \<or> m = 6 \<or> m = 7 \<or> m = 8 \<or> m = 9 \<or> m = 10 \<or> m = 11 \<or> m = 12"
  using assms by presburger

lemma DayFromMonth_next:
  assumes "1 \<le> m" "m \<le> 12"
  shows "DayFromMonth (m - 1) (if DaysInYear y = 366 then 1 else 0) + DaysInMonth y m
     = (if m = 12 then DaysInYear y else DayFromMonth m (if DaysInYear y = 366 then 1 else 0))"
  using month_cases[OF assms] DaysInYear_bounds[of y]
  by (auto simp: DayFromMonth_def DaysInMonth_def)

lemma DayFromMonth_mono:
  assumes "0 \<le> m" "m \<le> m'" "m' \<le> 11" "0 \<le> l"
  shows "DayFromMonth m l \<le> DayFromMonth m' l"
  using assms month_cases[of "m + 1"] month_cases[of "m' + 1"]
  by (auto simp: DayFromMonth_def)


lemma Day_MakeDate: "0 \<le> tm \<Longrightarrow> tm < 86400000 \<Longrightarrow> Day (MakeDate dy tm) = dy"
  by (simp add: Day_def MakeDate_def msPerDay_def)

lemma Day_new_Date: "Day (new_Date d) = MakeDay (year d) (month d - 1) (day d)"
  by (simp add: new_Date_def Day_MakeDate)

lemma new_Date_eq: "new_Date d = msPerDay * Day (new_Date d)"
  by (simp add: Day_new_Date) (simp add: new_Date_def MakeDate_def)

lemma MakeDay_valid:
  assumes "1 \<le> m" "m \<le> 12"
  shows "MakeDay y (m - 1) d =
     DayFromYear y + DayFromMonth (m - 1) (if DaysInYear y = 366 then 1 else 0) + d - 1"
proof -
  have "(m - 1) div 12 = 0" "(m - 1) mod 12 = m - 1" using assms by simp_all
  then show ?thesis by (simp add: MakeDay_def)
qed

lemma day_of_year_range:
  assumes "valid_date d"
  shows "DayFromYear (year d) \<le> Day (new_Date d)"
    and "Day (new_Date d) < DayFromYear (year d) + DaysInYear (year d)"
proof -
  let ?l = "if DaysInYear (year d) = 366 then 1 else 0 :: int"
  have m: "1 \<le> month d" "month d \<le> 12" and dd: "1 \<le> day d" "day d \<le> DaysInMonth (year d) (month d)"
    using assms by (simp_all add: valid_date_def)
  have e: "Day (new_Date d) = DayFromYear (year d) + DayFromMonth (month d - 1) ?l + day d - 1"
    by (simp only: Day_new_Date MakeDay_valid[OF m])
  have "DayFromMonth 0 ?l \<le> DayFromMonth (month d - 1) ?l"
    by (rule DayFromMonth_mono) (use m in simp_all)
  then have z: "0 \<le> DayFromMonth (month d - 1) ?l" by (simp add: DayFromMonth_def)
  show "DayFromYear (year d) \<le> Day (new_Date d)" unfolding e using z dd by linarith
  have "DayFromMonth (month d - 1) ?l + DaysInMonth (year d) (month d) \<le> DaysInYear (year d)"
  proof (cases "month d = 12")
    case True
    then show ?thesis using DayFromMonth_next[OF m, of "year d"] by simp
  next
    case False
    have "DayFromMonth (month d) ?l \<le> DayFromMonth 11 ?l"
      by (rule DayFromMonth_mono) (use m False in simp_all)
    also have "\<dots> \<le> DaysInYear (year d)"
      using DaysInYear_bounds[of "year d"] by (simp add: DayFromMonth_def)
    finally show ?thesis using DayFromMonth_next[OF m, of "year d"] False by simp
  qed
  then show "Day (new_Date d) < DayFromYear (year d) + DaysInYear (year d)"
    unfolding e using dd by linarith
qed

lemma Day_new_Date_strict_mono:
  assumes a: "valid_date a" and b: "valid_date b" and l: "date_less a b"
  shows "Day (new_Date a) < Day (new_Date b)"
proof -
  let ?l = "if DaysInYear (year a) = 366 then 1 else 0 :: int"
  have ma: "1 \<le> month a" "month a \<le> 12" and da: "1 \<le> day a" "day a \<le> DaysInMonth (year a) (month a)"
    using a by (simp_all add: valid_date_def)
  have mb: "1 \<le> month b" "month b \<le> 12" and db: "1 \<le> day b" "day b \<le> DaysInMonth (year b) (month b)"
    using b by (simp_all add: valid_date_def)
  consider (y) "year a < year b"
    | (m) "year a = year b" "month a < month b"
    | (d) "year a = year b" "month a = month b" "day a < day b"
    using l unfolding date_less_def by blast
  then show ?thesis
  proof cases
    case y
    have "Day (new_Date a) < DayFromYear (year a) + DaysInYear (year a)"
      by (rule day_of_year_range[OF a])
    also have "\<dots> \<le> DayFromYear (year b)" by (rule DayFromYear_strict[OF y])
    also have "\<dots> \<le> Day (new_Date b)" by (rule day_of_year_range[OF b])
    finally show ?thesis .
  next
    case m
    have ea: "Day (new_Date a) = DayFromYear (year a) + DayFromMonth (month a - 1) ?l + day a - 1"
      by (simp only: Day_new_Date MakeDay_valid[OF ma])
    have eb: "Day (new_Date b) = DayFromYear (year a) + DayFromMonth (month b - 1) ?l + day b - 1"
      by (simp only: Day_new_Date MakeDay_valid[OF mb] m(1))
    have n: "DayFromMonth (month a - 1) ?l + DaysInMonth (year a) (month a) = DayFromMonth (month a) ?l"
      using DayFromMonth_next[OF ma, of "year a"] m(2) mb by simp
    have "DayFromMonth (month a) ?l \<le> DayFromMonth (month b - 1) ?l"
      by (rule DayFromMonth_mono) (use ma mb m in simp_all)
    then show ?thesis unfolding ea eb using n da db by linarith
  next
    case d
    have ea: "Day (new_Date a) = DayFromYear (year a) + DayFromMonth (month a - 1) ?l + day a - 1"
      by (simp only: Day_new_Date MakeDay_valid[OF ma])
    have eb: "Day (new_Date b) = DayFromYear (year a) + DayFromMonth (month a - 1) ?l + day b - 1"
      using MakeDay_valid[OF mb, of "year b" "day b"] by (simp only: Day_new_Date d(1,2))
    show ?thesis unfolding ea eb using d(3) by simp
  qed
qed

lemma new_Date_strict_mono:
  assumes "valid_date a" "valid_date b" "date_less a b"
  shows "new_Date a < new_Date b"
proof -
  have "Day (new_Date a) < Day (new_Date b)" by (rule Day_new_Date_strict_mono[OF assms])
  then have "msPerDay * Day (new_Date a) < msPerDay * Day (new_Date b)"
    by (simp add: msPerDay_def)
  then show ?thesis using new_Date_eq[of a] new_Date_eq[of b] by simp
qed

lemma Day_add_days: "Day (t + k * msPerDay) = Day t + k"
  by (simp add: Day_def msPerDay_def)

lemma TimeWithinDay_add_days: "TimeWithinDay (t + k * msPerDay) = TimeWithinDay t"
  by (simp add: TimeWithinDay_def msPerDay_def)

lemma LocalTime_constant_offset: "LocalTime (constant_offset tza) t = t + tza"
  by (simp add: LocalTime_def constant_offset_def)

lemma UTC_constant_offset: "UTC (constant_offset tza) t = t - tza"
  by (simp add: UTC_def constant_offset_def)

lemma setDate_getDate:
  "setDate (constant_offset tza) tv (getDate (constant_offset tza) tv + k) = tv + k * msPerDay"
proof -
  have "setDate (constant_offset tza) tv (getDate (constant_offset tza) tv + k)
      = (Day (tv + tza) + k) * msPerDay + TimeWithinDay (tv + tza) - tza"
    by (simp add: setDate_def getDate_def LocalTime_constant_offset UTC_constant_offset
        MakeDate_def MakeDay_fields Let_def)
  also have "\<dots> = tv + k * msPerDay"
    using Day_decomp[of "tv + tza"] by (simp add: algebra_simps)
  finally show ?thesis .
qed

lemma Day_toISODate: "Day (new_Date (toISODate t)) = Day t"
  using MakeDay_fields[of t 0] by (simp add: Day_new_Date toISODate_def)

lemma days_between_toISODate:
  "days_between (toISODate t) (toISODate (t + k * msPerDay)) = k"
  by (simp add: days_between_def Day_toISODate Day_add_days)

section \<open>Properties of the recurrence loop\<close>

declare expand_loop.simps [simp del]

lemma expand_loop_limit:
  "case expand_loop tz freq until durationMs baseData cur limit batchData of
     (cur', limit', batchData') \<Rightarrow>
       limit \<le> limit' \<and> (limit \<le> 52 \<longrightarrow> limit' \<le> 52) \<and>
       length batchData' = length batchData + (limit' - limit)"
proof (induction tz freq until durationMs baseData cur limit batchData rule: expand_loop.induct)
  case (1 tz freq until durationMs baseData cur limit batchData)
  show ?case
  proof (cases "cur \<le> until \<and> limit < 52")
    case True
    then show ?thesis
      using "1.IH"[OF True refl refl refl refl]
      by (subst expand_loop.simps) (auto simp: Let_def split: prod.splits)
  next
    case False
    then show ?thesis by (subst expand_loop.simps) auto
  qed
qed

lemma expand_loop_enters:
  assumes "cur \<le> until" "limit < 52"
  shows "snd (snd (expand_loop tz freq until durationMs baseData cur limit batchData)) \<noteq> []"
proof -
  let ?row = "\<lparr>base = baseData, start_date = toISODate cur, end_date = toISODate (cur + durationMs)\<rparr>"
  have e: "expand_loop tz freq until durationMs baseData cur limit batchData =
     expand_loop tz freq until durationMs baseData (next_step tz freq cur) (limit + 1) (batchData @ [?row])"
    using assms by (subst expand_loop.simps) (simp add: Let_def)
  show ?thesis
    using expand_loop_limit[where tz=tz and freq=freq and until=until and durationMs=durationMs
        and baseData=baseData and cur="next_step tz freq cur" and limit="limit + 1"
        and batchData="batchData @ [?row]"]
    unfolding e by (auto split: prod.splits)
qed

lemma expand_loop_rows:
  assumes "\<forall>r \<in> set batchData. P r"
    and "\<forall>t. P \<lparr>base = baseData, start_date = toISODate t, end_date = toISODate (t + durationMs)\<rparr>"
  shows "\<forall>r \<in> set (snd (snd (expand_loop tz freq until durationMs baseData cur limit batchData))). P r"
  using assms
proof (induction tz freq until durationMs baseData cur limit batchData rule: expand_loop.induct)
  case (1 tz freq until durationMs baseData cur limit batchData)
  show ?case
  proof (cases "cur \<le> until \<and> limit < 52")
    case True
    have "\<forall>r\<in>set (batchData @ [\<lparr>base = baseData, start_date = toISODate cur, end_date = toISODate (cur + durationMs)\<rparr>]). P r"
      using "1.prems" by simp
    from "1.IH"[OF True refl refl refl refl this "1.prems"(2)] True show ?thesis
      by (subst expand_loop.simps) (simp add: Let_def)
  next
    case False
    then show ?thesis using "1.prems"(1) by (subst expand_loop.simps) auto
  qed
qed

lemma durationMs_days:
  "new_Date endDate - new_Date startDate = days_between startDate endDate * msPerDay"
  using new_Date_eq[of endDate] new_Date_eq[of startDate]
  by (simp add: days_between_def algebra_simps)


lemma expand_loop_step:
  "cur \<le> until \<Longrightarrow> limit < 52 \<Longrightarrow>
   expand_loop tz freq until durationMs baseData cur limit batchData =
   expand_loop tz freq until durationMs baseData (next_step tz freq cur) (limit + 1)
     (batchData @ [\<lparr>base = baseData, start_date = toISODate cur,
                     end_date = toISODate (cur + durationMs)\<rparr>])"
  by (subst expand_loop.simps) (simp add: Let_def)

lemma expand_loop_exit:
  "\<not> (cur \<le> until \<and> limit < 52) \<Longrightarrow>
   expand_loop tz freq until durationMs baseData cur limit batchData = (cur, limit, batchData)"
  by (subst expand_loop.simps) auto

lemma next_step_weekly: "next_step (constant_offset tza) ''weekly'' cur = cur + 7 * msPerDay"
  by (simp add: next_step_def setDate_getDate)

lemma next_step_biweekly: "next_step (constant_offset tza) ''biweekly'' cur = cur + 14 * msPerDay"
  by (simp add: next_step_def setDate_getDate)

lemmas date_eval = toISODate_def YearFromTime_def MonthFromTime_def DateFromTime_def DayWithinYear_def InLeapYear_def
    Day_def DayFromYear_def DaysInYear_def msPerDay_def Let_def new_Date_def MakeDate_def MakeDay_def DayFromMonth_def



lemma map_upt_Suc_shift: "map f [0..<Suc k] = f 0 # map (\<lambda>i. f (Suc i)) [0..<k]"
  by (simp only: upt_conv_Cons[of 0 "Suc k"] map_Suc_upt[symmetric] zero_less_Suc) (simp add: comp_def)

lemma expand_loop_series:
  "\<exists>k. expand_loop tz freq until durationMs baseData cur limit batchData =
         ((next_step tz freq ^^ k) cur, limit + k,
          batchData @ map (series_row tz freq durationMs baseData cur) [0..<k]) \<and>
       (\<forall>i<k. (next_step tz freq ^^ i) cur \<le> until) \<and>
       (limit \<le> 52 \<longrightarrow> limit + k \<le> 52) \<and>
       (limit + k < 52 \<longrightarrow> \<not> (next_step tz freq ^^ k) cur \<le> until)"
proof (induction tz freq until durationMs baseData cur limit batchData rule: expand_loop.induct)
  case (1 tz freq until durationMs baseData cur limit batchData)
  show ?case
  proof (cases "cur \<le> until \<and> limit < 52")
    case True
    let ?row = "\<lparr>base = baseData, start_date = toISODate cur, end_date = toISODate (cur + durationMs)\<rparr>"
    let ?c = "next_step tz freq cur"
    from "1.IH"[OF True refl refl refl refl]
    obtain k where k: "expand_loop tz freq until durationMs baseData ?c (limit + 1) (batchData @ [?row]) =
         ((next_step tz freq ^^ k) ?c, limit + 1 + k,
          (batchData @ [?row]) @ map (series_row tz freq durationMs baseData ?c) [0..<k])"
       and le: "\<forall>i<k. (next_step tz freq ^^ i) ?c \<le> until"
       and b: "limit + 1 \<le> 52 \<longrightarrow> limit + 1 + k \<le> 52"
       and x: "limit + 1 + k < 52 \<longrightarrow> \<not> (next_step tz freq ^^ k) ?c \<le> until"
      by blast
    have sw: "\<And>i. (next_step tz freq ^^ i) ?c = (next_step tz freq ^^ Suc i) cur"
      by (simp add: funpow_swap1)
    have r0: "series_row tz freq durationMs baseData cur 0 = ?row"
      by (simp add: series_row_def)
    have rs: "series_row tz freq durationMs baseData ?c = (\<lambda>i. series_row tz freq durationMs baseData cur (Suc i))"
      by (rule ext) (simp add: series_row_def funpow_swap1)
    have e: "expand_loop tz freq until durationMs baseData cur limit batchData =
         ((next_step tz freq ^^ Suc k) cur, limit + Suc k,
          batchData @ map (series_row tz freq durationMs baseData cur) [0..<Suc k])"
      using True k by (simp only: expand_loop_step sw map_upt_Suc_shift r0 rs) simp
    have le': "\<forall>i<Suc k. (next_step tz freq ^^ i) cur \<le> until"
    proof (intro allI impI)
      fix i assume "i < Suc k"
      show "(next_step tz freq ^^ i) cur \<le> until"
      proof (cases i)
        case 0 then show ?thesis using True by simp
      next
        case (Suc j)
        then have "j < k" using \<open>i < Suc k\<close> by simp
        with le have "(next_step tz freq ^^ j) ?c \<le> until" by blast
        then show ?thesis unfolding sw Suc .
      qed
    qed
    show ?thesis
      apply (rule exI[of _ "Suc k"])
      using e le' b x True sw[of k] by simp
  next
    case False
    show ?thesis
      apply (rule exI[of _ 0])
      using False by (auto simp: expand_loop_exit)
  qed
qed

lemma next_step_unknown:
  "freq \<noteq> ''weekly'' \<Longrightarrow> freq \<noteq> ''biweekly'' \<Longrightarrow> freq \<noteq> ''monthly'' \<Longrightarrow>
   (next_step tz freq ^^ i) cur = cur"
  by (induction i) (simp_all add: next_step_def)

section \<open>The monthly step on dates\<close>

text \<open>
  A time value's date fields are determined by its day number, so formatting the parsed
  date gives the date back, and \<^verbatim>\<open>setMonth(getMonth() + 1)\<close> on the cursor is
  \<open>month_later\<close> on its date. The zone is taken of constant offset between 0 and 24
  hours (at or east of Greenwich), where the cursor's local date is its UTC date.
\<close>

lemma YearFromTime_unique:
  assumes "DayFromYear y \<le> Day t" "Day t < DayFromYear (y + 1)"
  shows "YearFromTime t = y"
proof (rule antisym)
  show "YearFromTime t \<le> y"
  proof (rule ccontr)
    assume "\<not> YearFromTime t \<le> y"
    then have "y + 1 \<le> YearFromTime t" by simp
    then have "DayFromYear (y + 1) \<le> DayFromYear (YearFromTime t)" by (rule DayFromYear_mono)
    with YearFromTime_bounds(1)[of t] assms(2) show False by linarith
  qed
  show "y \<le> YearFromTime t"
  proof (rule ccontr)
    assume "\<not> y \<le> YearFromTime t"
    then have "YearFromTime t + 1 \<le> y" by simp
    then have "DayFromYear (YearFromTime t + 1) \<le> DayFromYear y" by (rule DayFromYear_mono)
    with YearFromTime_bounds(2)[of t] assms(1) show False by linarith
  qed
qed

lemma month_table:
  fixes m d w l :: int
  assumes m: "m = 1 \<or> m = 2 \<or> m = 3 \<or> m = 4 \<or> m = 5 \<or> m = 6 \<or> m = 7 \<or> m = 8 \<or> m = 9 \<or> m = 10 \<or> m = 11 \<or> m = 12"
    and l: "0 \<le> l" "l \<le> 1"
    and d: "1 \<le> d" "d \<le> (if m = 2 then 28 + l else if m = 4 \<or> m = 6 \<or> m = 9 \<or> m = 11 then 30 else 31)"
    and w: "w = DayFromMonth (m - 1) l + d - 1"
  shows "(if w < 31 then 0
         else if w < 59 + l then 1
         else if w < 90 + l then 2
         else if w < 120 + l then 3
         else if w < 151 + l then 4
         else if w < 181 + l then 5
         else if w < 212 + l then 6
         else if w < 243 + l then 7
         else if w < 273 + l then 8
         else if w < 304 + l then 9
         else if w < 334 + l then 10
         else 11) = m - 1"
  using m
proof (elim disjE)
  assume "m = 1" then show ?thesis using l d w by (simp add: DayFromMonth_def)
next
  assume "m = 2" then show ?thesis using l d w by (simp add: DayFromMonth_def)
next
  assume "m = 3" then show ?thesis using l d w by (simp add: DayFromMonth_def)
next
  assume "m = 4" then show ?thesis using l d w by (simp add: DayFromMonth_def)
next
  assume "m = 5" then show ?thesis using l d w by (simp add: DayFromMonth_def)
next
  assume "m = 6" then show ?thesis using l d w by (simp add: DayFromMonth_def)
next
  assume "m = 7" then show ?thesis using l d w by (simp add: DayFromMonth_def)
next
  assume "m = 8" then show ?thesis using l d w by (simp add: DayFromMonth_def)
next
  assume "m = 9" then show ?thesis using l d w by (simp add: DayFromMonth_def)
next
  assume "m = 10" then show ?thesis using l d w by (simp add: DayFromMonth_def)
next
  assume "m = 11" then show ?thesis using l d w by (simp add: DayFromMonth_def)
next
  assume "m = 12" then show ?thesis using l d w by (simp add: DayFromMonth_def)
qed

lemma date_table:
  fixes m w l :: int
  assumes m: "m = 1 \<or> m = 2 \<or> m = 3 \<or> m = 4 \<or> m = 5 \<or> m = 6 \<or> m = 7 \<or> m = 8 \<or> m = 9 \<or> m = 10 \<or> m = 11 \<or> m = 12"
  shows "(if m - 1 = 0 then w + 1
         else if m - 1 = 1 then w - 30
         else if m - 1 = 2 then w - 58 - l
         else if m - 1 = 3 then w - 89 - l
         else if m - 1 = 4 then w - 119 - l
         else if m - 1 = 5 then w - 150 - l
         else if m - 1 = 6 then w - 180 - l
         else if m - 1 = 7 then w - 211 - l
         else if m - 1 = 8 then w - 242 - l
         else if m - 1 = 9 then w - 272 - l
         else if m - 1 = 10 then w - 303 - l
         else w - 333 - l) = w - DayFromMonth (m - 1) l + 1"
  using m by (elim disjE) (simp_all add: DayFromMonth_def)

lemma fields_of_day:
  assumes m: "1 \<le> m" "m \<le> 12" and d: "1 \<le> d" "d \<le> DaysInMonth y m"
    and t: "Day t = DayFromYear y + DayFromMonth (m - 1) (if DaysInYear y = 366 then 1 else 0) + d - 1"
  shows "YearFromTime t = y" "MonthFromTime t = m - 1" "DateFromTime t = d"
proof -
  let ?l = "if DaysInYear y = 366 then 1 else 0 :: int"
  have z: "0 \<le> DayFromMonth (m - 1) ?l"
    using DayFromMonth_mono[of 0 "m - 1" ?l] m by (simp add: DayFromMonth_def)
  have n: "DayFromMonth (m - 1) ?l + DaysInMonth y m \<le> DaysInYear y"
  proof (cases "m = 12")
    case True
    then show ?thesis using DayFromMonth_next[OF m, of y] by simp
  next
    case False
    have "DayFromMonth m ?l \<le> DayFromMonth 11 ?l"
      by (rule DayFromMonth_mono) (use m False in simp_all)
    also have "\<dots> \<le> DaysInYear y"
      using DaysInYear_bounds[of y] by (simp add: DayFromMonth_def)
    finally show ?thesis using DayFromMonth_next[OF m, of y] False by simp
  qed
  have lo: "DayFromYear y \<le> Day t" unfolding t using z d by linarith
  have hi: "Day t < DayFromYear (y + 1)"
    unfolding t DayFromYear_step using n d by linarith
  show y: "YearFromTime t = y" by (rule YearFromTime_unique[OF lo hi])
  have w: "DayWithinYear t = DayFromMonth (m - 1) ?l + d - 1"
    by (simp add: DayWithinYear_def y t)
  have l: "InLeapYear t = ?l" by (simp add: InLeapYear_def y)
  have l01: "0 \<le> ?l" "?l \<le> 1" by simp_all
  have dm: "d \<le> (if m = 2 then 28 + ?l else if m = 4 \<or> m = 6 \<or> m = 9 \<or> m = 11 then 30 else 31)"
    using d(2) by (simp add: DaysInMonth_def split: if_splits)
  show mo: "MonthFromTime t = m - 1"
    unfolding MonthFromTime_def Let_def l
    by (rule month_table[OF month_cases[OF m] l01 d(1) dm w])
  show "DateFromTime t = d"
    unfolding DateFromTime_def Let_def l mo date_table[OF month_cases[OF m]] w by simp
qed

lemma toISODate_new_Date:
  assumes "valid_date d"
  shows "toISODate (new_Date d) = d"
proof -
  have m: "1 \<le> month d" "month d \<le> 12" and dd: "1 \<le> day d" "day d \<le> DaysInMonth (year d) (month d)"
    using assms by (simp_all add: valid_date_def)
  have t: "Day (new_Date d) = DayFromYear (year d) +
     DayFromMonth (month d - 1) (if DaysInYear (year d) = 366 then 1 else 0) + day d - 1"
    by (simp only: Day_new_Date MakeDay_valid[OF m])
  show ?thesis
    using fields_of_day[OF m dd t] by (simp add: toISODate_def)
qed

lemma MakeDay_next_month:
  assumes "1 \<le> m" "m \<le> 12" "next_month (y, m) = (y1, m1)"
  shows "MakeDay y m d = MakeDay y1 (m1 - 1) d" "1 \<le> m1" "m1 \<le> 12"
proof -
  show "MakeDay y m d = MakeDay y1 (m1 - 1) d"
  proof (cases "m = 12")
    case True
    then have "y1 = y + 1" "m1 = 1" using assms(3) by (simp_all add: next_month_def)
    then show ?thesis using True by (simp add: MakeDay_def)
  next
    case False
    then have e: "y1 = y" "m1 = m + 1" using assms(3) by (simp_all add: next_month_def)
    have "m div 12 = 0" "m mod 12 = m" using assms(1,2) False by simp_all
    then show ?thesis using e by (simp add: MakeDay_def)
  qed
  show "1 \<le> m1" "m1 \<le> 12"
    using assms by (auto simp: next_month_def split: if_splits)
qed

lemma DaysInMonth_bounds: "28 \<le> DaysInMonth y m" "DaysInMonth y m \<le> 31"
  by (simp_all add: DaysInMonth_def)

lemma toISODate_MakeDay_overflow:
  assumes m: "1 \<le> m" "m \<le> 12" and d: "1 \<le> d" "d \<le> 31"
    and t: "Day t = MakeDay y (m - 1) d"
  shows "toISODate t =
     (if d \<le> DaysInMonth y m then \<lparr>year = y, month = m, day = d\<rparr>
      else (let (y2, m2) = next_month (y, m)
            in \<lparr>year = y2, month = m2, day = d - DaysInMonth y m\<rparr>))"
proof (cases "d \<le> DaysInMonth y m")
  case True
  have "Day t = DayFromYear y + DayFromMonth (m - 1) (if DaysInYear y = 366 then 1 else 0) + d - 1"
    by (simp only: t MakeDay_valid[OF m])
  from fields_of_day[OF m d(1) True this] True show ?thesis by (simp add: toISODate_def)
next
  case False
  obtain y2 m2 where n: "next_month (y, m) = (y2, m2)" by (cases "next_month (y, m)") auto
  let ?d = "d - DaysInMonth y m"
  have d2: "1 \<le> ?d" "?d \<le> DaysInMonth y2 m2"
    using False d DaysInMonth_bounds[of y m] DaysInMonth_bounds[of y2 m2] by linarith+
  have m2: "1 \<le> m2" "m2 \<le> 12" using MakeDay_next_month(2,3)[OF m n] .
  have e0: "Day t = DayFromYear y + DayFromMonth (m - 1) (if DaysInYear y = 366 then 1 else 0) + d - 1"
    by (simp only: t MakeDay_valid[OF m])
  have "Day t = DayFromYear y2 + DayFromMonth (m2 - 1) (if DaysInYear y2 = 366 then 1 else 0) + ?d - 1"
  proof (cases "m = 12")
    case True
    then have e: "y2 = y + 1" "m2 = 1" using n by (simp_all add: next_month_def)
    have "DayFromMonth (m - 1) (if DaysInYear y = 366 then 1 else 0) + DaysInMonth y m = DaysInYear y"
      using DayFromMonth_next[OF m, of y] True by simp
    then have "Day t = DayFromYear y + DaysInYear y + ?d - 1"
      using e0 by linarith
    then show ?thesis by (simp add: e DayFromYear_step DayFromMonth_def)
  next
    case F: False
    then have e: "y2 = y" "m2 = m + 1" using n by (simp_all add: next_month_def)
    have "DayFromMonth (m - 1) (if DaysInYear y = 366 then 1 else 0) + DaysInMonth y m
        = DayFromMonth m (if DaysInYear y = 366 then 1 else 0)"
      using DayFromMonth_next[OF m, of y] F by simp
    then have "Day t = DayFromYear y + DayFromMonth m (if DaysInYear y = 366 then 1 else 0) + ?d - 1"
      using e0 by linarith
    then show ?thesis by (simp add: e)
  qed
  from fields_of_day[OF m2 d2 this] False n show ?thesis by (simp add: toISODate_def)
qed

lemma monthly_step_date:
  assumes v: "valid_date d" and z: "0 \<le> tza" "tza < msPerDay"
  shows "toISODate (next_step (constant_offset tza) ''monthly'' (new_Date d)) = month_later d"
proof -
  have m: "1 \<le> month d" "month d \<le> 12" and dd: "1 \<le> day d" "day d \<le> DaysInMonth (year d) (month d)"
    using v by (simp_all add: valid_date_def)
  have d31: "day d \<le> 31" using dd(2) DaysInMonth_bounds(2)[of "year d" "month d"] by linarith
  let ?t = "LocalTime (constant_offset tza) (new_Date d)"
  have lt: "?t = MakeDate (Day (new_Date d)) tza"
    using new_Date_eq[of d] by (simp add: LocalTime_constant_offset MakeDate_def algebra_simps)
  have z': "tza < 86400000" using z(2) by (simp add: msPerDay_def)
  have dt: "Day ?t = Day (new_Date d)" unfolding lt by (rule Day_MakeDate[OF z(1) z'])
  have tw: "TimeWithinDay ?t = tza"
    unfolding lt using z by (simp add: TimeWithinDay_def MakeDate_def msPerDay_def)
  have "Day ?t = DayFromYear (year d) +
     DayFromMonth (month d - 1) (if DaysInYear (year d) = 366 then 1 else 0) + day d - 1"
    by (simp only: dt Day_new_Date MakeDay_valid[OF m])
  note f = fields_of_day[OF m dd this]
  obtain y1 m1 where n: "next_month (year d, month d) = (y1, m1)"
    by (cases "next_month (year d, month d)") auto
  note nm = MakeDay_next_month[OF m n]
  have s: "next_step (constant_offset tza) ''monthly'' (new_Date d) = MakeDate (MakeDay y1 (m1 - 1) (day d)) 0"
    by (simp add: next_step_def setMonth_def getMonth_def f tw nm(1)[symmetric] UTC_constant_offset MakeDate_def)
  have "Day (MakeDate (MakeDay y1 (m1 - 1) (day d)) 0) = MakeDay y1 (m1 - 1) (day d)"
    by (simp add: Day_MakeDate)
  from toISODate_MakeDay_overflow[OF nm(2,3) dd(1) d31 this]
  show ?thesis unfolding s month_later_def n by simp
qed

section \<open>Recurrence: the claims\<close>

text \<open>
  C1. When the until date is strictly after the start date (all three dates being dates
  of the calendar), the expansion returns rows, at least one and at most 52, and in each
  row the number of days from start to end is the number of days from the template's
  start to its end. This holds for every frequency string and every time zone.
\<close>

theorem expand_nonempty_duration_bound:
  assumes "valid_date startDate" "valid_date endDate" "valid_date untilDate"
    and "date_less startDate untilDate"
  shows "\<exists>rows. expand tz baseData startDate endDate untilDate freq = Inr rows \<and>
           rows \<noteq> [] \<and> length rows \<le> 52 \<and>
           (\<forall>r \<in> set rows. days_between (start_date r) (end_date r) = days_between startDate endDate)"
proof -
  let ?dur = "new_Date endDate - new_Date startDate"
  let ?res = "expand_loop tz freq (new_Date untilDate) ?dur baseData (new_Date startDate) 0 []"
  obtain cur' limit' rows where res: "?res = (cur', limit', rows)"
    by (cases ?res) auto
  have guard: "\<not> date_str untilDate \<le> date_str startDate"
  proof -
    have "\<not> date_le untilDate startDate"
      using assms(4) unfolding date_le_def date_less_def by auto
    then show ?thesis by (simp add: date_str_le[OF assms(3) assms(1)])
  qed
  have le: "new_Date startDate \<le> new_Date untilDate"
    using new_Date_strict_mono[OF assms(1) assms(3) assms(4)] by simp
  have ne: "rows \<noteq> []"
    using expand_loop_enters[OF le, of 0 tz freq ?dur baseData "[]"] res by simp
  have len: "length rows \<le> 52"
    using expand_loop_limit[where tz=tz and freq=freq and until="new_Date untilDate"
        and durationMs="?dur" and baseData=baseData and cur="new_Date startDate" and limit=0
        and batchData="[]"] res by simp
  have "\<forall>r \<in> set (snd (snd ?res)).
          days_between (start_date r) (end_date r) = days_between startDate endDate"
    by (rule expand_loop_rows) (simp_all add: durationMs_days days_between_toISODate)
  then have dur: "\<forall>r \<in> set rows. days_between (start_date r) (end_date r) = days_between startDate endDate"
    using res by simp
  have "expand tz baseData startDate endDate untilDate freq = Inr rows"
    using guard res ne by (simp add: expand_def Let_def)
  then show ?thesis using ne len dur by blast
qed

theorem expand_nonempty_duration_bound_witness:
  "valid_date \<lparr>year = 2024, month = 2, day = 20\<rparr> \<and>
   valid_date \<lparr>year = 2024, month = 2, day = 22\<rparr> \<and>
   valid_date \<lparr>year = 2024, month = 6, day = 1\<rparr> \<and>
   date_less \<lparr>year = 2024, month = 2, day = 20\<rparr> \<lparr>year = 2024, month = 6, day = 1\<rparr> \<and>
   (\<exists>rows. expand (constant_offset 32400000) ''b'' \<lparr>year = 2024, month = 2, day = 20\<rparr>
              \<lparr>year = 2024, month = 2, day = 22\<rparr> \<lparr>year = 2024, month = 6, day = 1\<rparr>
              ''biweekly'' = Inr rows \<and>
           rows \<noteq> [] \<and> length rows \<le> 52 \<and>
           (\<forall>r \<in> set rows. days_between (start_date r) (end_date r) =
              days_between \<lparr>year = 2024, month = 2, day = 20\<rparr> \<lparr>year = 2024, month = 2, day = 22\<rparr>))"
proof -
  have v1: "valid_date \<lparr>year = 2024, month = 2, day = 20\<rparr>"
    and v2: "valid_date \<lparr>year = 2024, month = 2, day = 22\<rparr>"
    and v3: "valid_date \<lparr>year = 2024, month = 6, day = 1\<rparr>"
    by (simp_all add: valid_date_def DaysInMonth_def DaysInYear_def)
  have l: "date_less \<lparr>year = 2024, month = 2, day = 20\<rparr> \<lparr>year = 2024, month = 6, day = 1\<rparr>"
    by (simp add: date_less_def)
  show ?thesis
    using expand_nonempty_duration_bound[OF v1 v2 v3 l, of "constant_offset 32400000" "''b''" "''biweekly''"] v1 v2 v3 l
    by blast
qed

text \<open>
  C3. When the until date is on or before the start date, the expansion is the error
  InvalidRecurrenceRange, and so is the handler's batch for a recurring submission: the
  handler returns before the loop, so no row is built and nothing is inserted.
\<close>

theorem expand_invalid_range:
  assumes "valid_date startDate" "valid_date untilDate" "date_le untilDate startDate"
  shows "expand tz baseData startDate endDate untilDate freq = Inl InvalidRecurrenceRange \<and>
         onsubmit_batchData tz True baseData startDate endDate untilDate freq =
           Inl InvalidRecurrenceRange"
  using assms by (simp add: onsubmit_batchData_def expand_def date_str_le)

theorem expand_invalid_range_witness:
  "valid_date \<lparr>year = 2025, month = 5, day = 12\<rparr> \<and>
   date_le \<lparr>year = 2025, month = 5, day = 12\<rparr> \<lparr>year = 2025, month = 5, day = 12\<rparr> \<and>
   expand (constant_offset 0) ''b'' \<lparr>year = 2025, month = 5, day = 12\<rparr> \<lparr>year = 2025, month = 5, day = 13\<rparr>
     \<lparr>year = 2025, month = 5, day = 12\<rparr> ''monthly'' = Inl InvalidRecurrenceRange \<and>
   onsubmit_batchData (constant_offset 0) True ''b'' \<lparr>year = 2025, month = 5, day = 12\<rparr>
     \<lparr>year = 2025, month = 5, day = 13\<rparr> \<lparr>year = 2025, month = 5, day = 12\<rparr> ''monthly'' =
     Inl InvalidRecurrenceRange"
proof -
  have v: "valid_date \<lparr>year = 2025, month = 5, day = 12\<rparr>"
    by (simp add: valid_date_def DaysInMonth_def)
  have l: "date_le \<lparr>year = 2025, month = 5, day = 12\<rparr> \<lparr>year = 2025, month = 5, day = 12\<rparr>"
    by (simp add: date_le_def)
  show ?thesis
    using expand_invalid_range[OF v v l, of "constant_offset 0" "''b''" "\<lparr>year = 2025, month = 5, day = 13\<rparr>" "''monthly''"] v l
    by simp
qed

text \<open>
  In a zone of constant offset the template 2025-03-03 to 2025-03-04 repeated weekly
  until 2025-03-24 gives four rows, starting on 2025-03-03, 03-10, 03-17 and 03-24 (the
  until date itself is included), each ending one day after it starts.
\<close>

lemma staff_meeting_constant_offset:
  "expand (constant_offset tza) baseData \<lparr>year = 2025, month = 3, day = 3\<rparr> \<lparr>year = 2025, month = 3, day = 4\<rparr>
      \<lparr>year = 2025, month = 3, day = 24\<rparr> ''weekly'' =
   Inr [\<lparr>base = baseData, start_date = \<lparr>year = 2025, month = 3, day = 3\<rparr>, end_date = \<lparr>year = 2025, month = 3, day = 4\<rparr>\<rparr>,
        \<lparr>base = baseData, start_date = \<lparr>year = 2025, month = 3, day = 10\<rparr>, end_date = \<lparr>year = 2025, month = 3, day = 11\<rparr>\<rparr>,
        \<lparr>base = baseData, start_date = \<lparr>year = 2025, month = 3, day = 17\<rparr>, end_date = \<lparr>year = 2025, month = 3, day = 18\<rparr>\<rparr>,
        \<lparr>base = baseData, start_date = \<lparr>year = 2025, month = 3, day = 24\<rparr>, end_date = \<lparr>year = 2025, month = 3, day = 25\<rparr>\<rparr>]"
proof -
  have guard: "\<not> date_str \<lparr>year = 2025, month = 3, day = 24\<rparr> \<le> date_str \<lparr>year = 2025, month = 3, day = 3\<rparr>"
    by (simp add: date_str_def pad4_def pad2_def digit_less digit_eq)
  have d: "new_Date \<lparr>year = 2025, month = 3, day = 3\<rparr> = 1740960000000"
    "new_Date \<lparr>year = 2025, month = 3, day = 4\<rparr> = 1741046400000"
    "new_Date \<lparr>year = 2025, month = 3, day = 24\<rparr> = 1742774400000"
    by (simp_all add: date_eval)
  have loop: "expand_loop (constant_offset tza) ''weekly'' 1742774400000 86400000 baseData 1740960000000 0 [] =
     (1743379200000, 4,
      [\<lparr>base = baseData, start_date = toISODate 1740960000000, end_date = toISODate 1741046400000\<rparr>,
       \<lparr>base = baseData, start_date = toISODate 1741564800000, end_date = toISODate 1741651200000\<rparr>,
       \<lparr>base = baseData, start_date = toISODate 1742169600000, end_date = toISODate 1742256000000\<rparr>,
       \<lparr>base = baseData, start_date = toISODate 1742774400000, end_date = toISODate 1742860800000\<rparr>])"
    by (simp add: expand_loop_step expand_loop_exit next_step_weekly msPerDay_def)
  have iso: "toISODate 1740960000000 = \<lparr>year = 2025, month = 3, day = 3\<rparr>"
    "toISODate 1741046400000 = \<lparr>year = 2025, month = 3, day = 4\<rparr>"
    "toISODate 1741564800000 = \<lparr>year = 2025, month = 3, day = 10\<rparr>"
    "toISODate 1741651200000 = \<lparr>year = 2025, month = 3, day = 11\<rparr>"
    "toISODate 1742169600000 = \<lparr>year = 2025, month = 3, day = 17\<rparr>"
    "toISODate 1742256000000 = \<lparr>year = 2025, month = 3, day = 18\<rparr>"
    "toISODate 1742774400000 = \<lparr>year = 2025, month = 3, day = 24\<rparr>"
    "toISODate 1742860800000 = \<lparr>year = 2025, month = 3, day = 25\<rparr>"
    by (simp_all add: date_eval)
  show ?thesis
    unfolding expand_def Let_def d using guard by (simp add: loop iso)
qed

text \<open>
  C5. The cursor is parsed and printed in UTC but stepped in local time. In New York
  the start, midnight UTC of March 3, is 19:00 local on March 2; seven local days later
  daylight saving has begun, 19:00 local is 23:00 UTC of March 9, and every later row
  is a day early. The rows start on 2025-03-03, 03-09, 03-16 and 03-23; the next cursor,
  23:00 UTC of March 30, is past the until date, so no row starts on 03-24.
\<close>

theorem staff_meeting_new_york:
  "expand America_New_York_2025 baseData \<lparr>year = 2025, month = 3, day = 3\<rparr>
      \<lparr>year = 2025, month = 3, day = 4\<rparr> \<lparr>year = 2025, month = 3, day = 24\<rparr> ''weekly'' =
   Inr [\<lparr>base = baseData, start_date = \<lparr>year = 2025, month = 3, day = 3\<rparr>, end_date = \<lparr>year = 2025, month = 3, day = 4\<rparr>\<rparr>,
        \<lparr>base = baseData, start_date = \<lparr>year = 2025, month = 3, day = 9\<rparr>, end_date = \<lparr>year = 2025, month = 3, day = 10\<rparr>\<rparr>,
        \<lparr>base = baseData, start_date = \<lparr>year = 2025, month = 3, day = 16\<rparr>, end_date = \<lparr>year = 2025, month = 3, day = 17\<rparr>\<rparr>,
        \<lparr>base = baseData, start_date = \<lparr>year = 2025, month = 3, day = 23\<rparr>, end_date = \<lparr>year = 2025, month = 3, day = 24\<rparr>\<rparr>]"
proof -
  have guard: "\<not> date_str \<lparr>year = 2025, month = 3, day = 24\<rparr> \<le> date_str \<lparr>year = 2025, month = 3, day = 3\<rparr>"
    by (simp add: date_str_def pad4_def pad2_def digit_less digit_eq)
  have d: "new_Date \<lparr>year = 2025, month = 3, day = 3\<rparr> = 1740960000000"
    "new_Date \<lparr>year = 2025, month = 3, day = 4\<rparr> = 1741046400000"
    "new_Date \<lparr>year = 2025, month = 3, day = 24\<rparr> = 1742774400000"
    by code_simp+
  have s: "next_step America_New_York_2025 ''weekly'' 1740960000000 = 1741561200000"
    "next_step America_New_York_2025 ''weekly'' 1741561200000 = 1742166000000"
    "next_step America_New_York_2025 ''weekly'' 1742166000000 = 1742770800000"
    "next_step America_New_York_2025 ''weekly'' 1742770800000 = 1743375600000"
    by code_simp+
  have loop: "expand_loop America_New_York_2025 ''weekly'' 1742774400000 86400000 baseData
                1740960000000 0 [] =
     (1743375600000, 4,
      [\<lparr>base = baseData, start_date = toISODate 1740960000000, end_date = toISODate 1741046400000\<rparr>,
       \<lparr>base = baseData, start_date = toISODate 1741561200000, end_date = toISODate 1741647600000\<rparr>,
       \<lparr>base = baseData, start_date = toISODate 1742166000000, end_date = toISODate 1742252400000\<rparr>,
       \<lparr>base = baseData, start_date = toISODate 1742770800000, end_date = toISODate 1742857200000\<rparr>])"
    by (simp add: expand_loop_step expand_loop_exit s)
  have iso: "toISODate 1740960000000 = \<lparr>year = 2025, month = 3, day = 3\<rparr>"
    "toISODate 1741046400000 = \<lparr>year = 2025, month = 3, day = 4\<rparr>"
    "toISODate 1741561200000 = \<lparr>year = 2025, month = 3, day = 9\<rparr>"
    "toISODate 1741647600000 = \<lparr>year = 2025, month = 3, day = 10\<rparr>"
    "toISODate 1742166000000 = \<lparr>year = 2025, month = 3, day = 16\<rparr>"
    "toISODate 1742252400000 = \<lparr>year = 2025, month = 3, day = 17\<rparr>"
    "toISODate 1742770800000 = \<lparr>year = 2025, month = 3, day = 23\<rparr>"
    "toISODate 1742857200000 = \<lparr>year = 2025, month = 3, day = 24\<rparr>"
    by code_simp+
  show ?thesis
    unfolding expand_def Let_def d using guard by (simp add: loop iso)
qed

text \<open>
  C7. For every input the loop stops after at most 52 iterations: it returns the cursor
  stepped \<open>n\<close> times, the counter \<open>n \<le> 52\<close> and the first \<open>n\<close> rows of the
  series, where every cursor before the \<open>n\<close>-th was on or before the until date and
  either \<open>n = 52\<close> or the \<open>n\<close>-th cursor is past it. So a series that would go on
  (a far until date, or a frequency string that never moves the cursor) is cut to its
  first 52 rows. The expansion itself fails only by the guard on the two date strings;
  otherwise it returns at most 52 rows.
\<close>

theorem expand_loop_bounded_truncates:
  "(\<exists>n\<le>52.
      expand_loop tz freq until durationMs baseData cur 0 [] =
        ((next_step tz freq ^^ n) cur, n,
         map (series_row tz freq durationMs baseData cur) [0..<n]) \<and>
      (\<forall>i<n. (next_step tz freq ^^ i) cur \<le> until) \<and>
      (n = 52 \<or> \<not> (next_step tz freq ^^ n) cur \<le> until)) \<and>
   (if date_str untilDate \<le> date_str startDate
    then expand tz baseData startDate endDate untilDate freq = Inl InvalidRecurrenceRange
    else \<exists>rows. expand tz baseData startDate endDate untilDate freq = Inr rows \<and>
           length rows \<le> 52)"
proof (rule conjI)
  obtain k where
    k: "expand_loop tz freq until durationMs baseData cur 0 [] =
         ((next_step tz freq ^^ k) cur, 0 + k,
          [] @ map (series_row tz freq durationMs baseData cur) [0..<k])"
    and le: "\<forall>i<k. (next_step tz freq ^^ i) cur \<le> until"
    and b: "(0::nat) \<le> 52 \<longrightarrow> 0 + k \<le> 52"
    and x: "0 + k < 52 \<longrightarrow> \<not> (next_step tz freq ^^ k) cur \<le> until"
    using expand_loop_series[of tz freq until durationMs baseData cur 0 "[]"] by blast
  have "k = 52 \<or> \<not> (next_step tz freq ^^ k) cur \<le> until" using b x by auto
  then show "\<exists>n\<le>52.
      expand_loop tz freq until durationMs baseData cur 0 [] =
        ((next_step tz freq ^^ n) cur, n,
         map (series_row tz freq durationMs baseData cur) [0..<n]) \<and>
      (\<forall>i<n. (next_step tz freq ^^ i) cur \<le> until) \<and>
      (n = 52 \<or> \<not> (next_step tz freq ^^ n) cur \<le> until)"
    using k le b by (intro exI[of _ k]) simp
next
  let ?res = "expand_loop tz freq (new_Date untilDate) (new_Date endDate - new_Date startDate)
                baseData (new_Date startDate) 0 []"
  obtain cur' limit' rows where res: "?res = (cur', limit', rows)"
    by (cases ?res) auto
  have len: "length rows \<le> 52"
    using expand_loop_limit[where tz=tz and freq=freq and until="new_Date untilDate"
        and durationMs="new_Date endDate - new_Date startDate" and baseData=baseData
        and cur="new_Date startDate" and limit=0 and batchData="[]"] res by simp
  show "if date_str untilDate \<le> date_str startDate
    then expand tz baseData startDate endDate untilDate freq = Inl InvalidRecurrenceRange
    else \<exists>rows. expand tz baseData startDate endDate untilDate freq = Inr rows \<and>
           length rows \<le> 52"
    using res len by (simp add: expand_def Let_def)
qed

theorem expand_loop_bounded_truncates_witness:
  "length (snd (snd (expand_loop (constant_offset 0) ''yearly'' 10 5 ''b'' 0 0 []))) = 52"
proof -
  have c: "\<And>i. (next_step (constant_offset 0) ''yearly'' ^^ i) 0 = 0"
    by (rule next_step_unknown) simp_all
  from expand_loop_bounded_truncates[of "constant_offset 0" "''yearly''" 10 5 "''b''" 0]
  obtain n where "n \<le> 52"
    and e: "expand_loop (constant_offset 0) ''yearly'' 10 5 ''b'' 0 0 [] =
        ((next_step (constant_offset 0) ''yearly'' ^^ n) 0, n, map (series_row (constant_offset 0) ''yearly'' 5 ''b'' 0) [0..<n])"
    and x: "n = 52 \<or> \<not> (next_step (constant_offset 0) ''yearly'' ^^ n) 0 \<le> (10::int)"
    by blast
  from x have "n = 52" by (simp add: c)
  then show ?thesis using e by simp
qed

text \<open>
  C2. The monthly step is \<^verbatim>\<open>curr.setMonth(curr.getMonth() + 1)\<close> on the cursor
  itself. From 2025-01-31 it asks for day 31 of February, which \<open>MakeDay\<close> carries
  into March: the rows are 2025-01-31, 2025-03-03, 2025-04-03 and no row falls in
  February. (Evaluated for Asia/Seoul, UTC+9.)
\<close>

theorem monthly_from_jan31_skips_february:
  "expand (constant_offset 32400000) baseData \<lparr>year = 2025, month = 1, day = 31\<rparr> \<lparr>year = 2025, month = 1, day = 31\<rparr>
      \<lparr>year = 2025, month = 4, day = 30\<rparr> ''monthly'' =
   Inr [\<lparr>base = baseData, start_date = \<lparr>year = 2025, month = 1, day = 31\<rparr>, end_date = \<lparr>year = 2025, month = 1, day = 31\<rparr>\<rparr>,
        \<lparr>base = baseData, start_date = \<lparr>year = 2025, month = 3, day = 3\<rparr>, end_date = \<lparr>year = 2025, month = 3, day = 3\<rparr>\<rparr>,
        \<lparr>base = baseData, start_date = \<lparr>year = 2025, month = 4, day = 3\<rparr>, end_date = \<lparr>year = 2025, month = 4, day = 3\<rparr>\<rparr>]"
proof -
  have guard: "\<not> date_str \<lparr>year = 2025, month = 4, day = 30\<rparr> \<le> date_str \<lparr>year = 2025, month = 1, day = 31\<rparr>"
    by (simp add: date_str_def pad4_def pad2_def digit_less digit_eq)
  have d: "new_Date \<lparr>year = 2025, month = 1, day = 31\<rparr> = 1738281600000"
    "new_Date \<lparr>year = 2025, month = 4, day = 30\<rparr> = 1745971200000"
    by code_simp+
  have s: "next_step (constant_offset 32400000) ''monthly'' 1738281600000 = 1740960000000"
    "next_step (constant_offset 32400000) ''monthly'' 1740960000000 = 1743638400000"
    "next_step (constant_offset 32400000) ''monthly'' 1743638400000 = 1746230400000"
    by code_simp+
  have loop: "expand_loop (constant_offset 32400000) ''monthly'' 1745971200000 0 baseData 1738281600000 0 [] =
     (1746230400000, 3,
      [\<lparr>base = baseData, start_date = toISODate 1738281600000, end_date = toISODate 1738281600000\<rparr>,
       \<lparr>base = baseData, start_date = toISODate 1740960000000, end_date = toISODate 1740960000000\<rparr>,
       \<lparr>base = baseData, start_date = toISODate 1743638400000, end_date = toISODate 1743638400000\<rparr>])"
    by (simp add: expand_loop_step expand_loop_exit s)
  have iso: "toISODate 1738281600000 = \<lparr>year = 2025, month = 1, day = 31\<rparr>"
    "toISODate 1740960000000 = \<lparr>year = 2025, month = 3, day = 3\<rparr>"
    "toISODate 1743638400000 = \<lparr>year = 2025, month = 4, day = 3\<rparr>"
    by code_simp+
  show ?thesis
    unfolding expand_def Let_def d using guard by (simp add: loop iso)
qed

section \<open>Properties of the projection\<close>

lemma forEach_push_map: "forEach_push f xs events = events @ map f xs"
  unfolding forEach_push_def by (induction xs arbitrary: events) simp_all

lemma Object_entries_Nil: "Object_entries [] = []"
  by (simp add: Object_entries_def)

lemma length_Object_entries: "length (Object_entries obj) = length obj"
  by (simp add: Object_entries_def sum_length_filter_compl)

lemma set_Object_entries: "set (Object_entries obj) = set obj"
  by (auto simp: Object_entries_def)

lemma mset_Object_entries: "mset (Object_entries obj) = mset obj"
  by (simp add: Object_entries_def)

lemma Object_entries_indices:
  "filter (\<lambda>e. is_array_index (fst e)) (Object_entries obj) =
     sort_key (\<lambda>e. digits_value (fst e)) (filter (\<lambda>e. is_array_index (fst e)) obj)"
proof -
  let ?idx = "\<lambda>e :: string \<times> 'a. is_array_index (fst e)"
  let ?s = "sort_key (\<lambda>e. digits_value (fst e)) (filter ?idx obj)"
  have "\<forall>e \<in> set ?s. ?idx e" by simp
  then have "filter ?idx ?s = ?s" by (simp only: filter_id_conv)
  then show ?thesis by (simp add: Object_entries_def)
qed

lemma Object_entries_split:
  "Object_entries obj =
     filter (\<lambda>e. is_array_index (fst e)) (Object_entries obj) @
     filter (\<lambda>e. \<not> is_array_index (fst e)) obj"
  by (simp only: Object_entries_indices) (simp add: Object_entries_def)

lemma Object_entries_sorted:
  "sorted (map (\<lambda>e. digits_value (fst e))
     (filter (\<lambda>e. is_array_index (fst e)) (Object_entries obj)))"
  by (simp only: Object_entries_indices sorted_sort_key)

lemma Object_entries_no_index:
  assumes "\<forall>e \<in> set obj. \<not> is_array_index (fst e)"
  shows "Object_entries obj = obj"
proof -
  have "filter (\<lambda>e. is_array_index (fst e)) obj = []"
    using assms by (simp add: filter_empty_conv)
  moreover have "filter (\<lambda>e. \<not> is_array_index (fst e)) obj = obj"
    using assms by (simp add: filter_id_conv)
  ultimately show ?thesis by (simp add: Object_entries_def)
qed

lemma transformEvents_eq:
  "transformEvents now_year schedules settings departments =
     map (fixed_holiday_event (yearStr_of now_year settings)) (fst (holidays_of settings)) @
     map variable_holiday_event (snd (holidays_of settings)) @
     map (schedule_event (deptMap_of departments)) schedules"
  by (simp add: transformEvents_def forEach_push_map holidays_of_def holiday_objects_def
      yearStr_of_def deptMap_of_def Object_entries_Nil Let_def split: option.splits)

lemma is_background_fixed: "is_background (fixed_holiday_event y e)"
  by (simp add: is_background_def fixed_holiday_event_def split: prod.splits)

lemma is_background_variable: "is_background (variable_holiday_event e)"
  by (simp add: is_background_def variable_holiday_event_def split: prod.splits)

lemma not_background_schedule: "\<not> is_background (schedule_event m s)"
  by (simp add: is_background_def schedule_event_def Let_def)

lemma deptMap_fold_dom:
  "dom (foldl (\<lambda>m d. m(department.id' d \<mapsto> d)) m0 departments) = dom m0 \<union> department.id' ` set departments"
  by (induction departments arbitrary: m0) auto

lemma deptMap_of_unknown:
  "k \<notin> department.id' ` set departments \<Longrightarrow> deptMap_of departments k = None"
  using deptMap_fold_dom[of Map.empty departments] unfolding deptMap_of_def by auto

lemma transformEvents_nth_schedule:
  assumes "i < length schedules"
  shows "length (fst (holidays_of settings)) + length (snd (holidays_of settings)) + i
           < length (transformEvents now_year schedules settings departments)"
    and "transformEvents now_year schedules settings departments !
           (length (fst (holidays_of settings)) + length (snd (holidays_of settings)) + i)
         = schedule_event (deptMap_of departments) (schedules ! i)"
  using assms by (simp_all add: transformEvents_eq nth_append)

lemma transformEvents_nth_fixed:
  assumes "i < length (fst (holidays_of settings))"
  shows "transformEvents now_year schedules settings departments ! i
         = fixed_holiday_event (yearStr_of now_year settings) (fst (holidays_of settings) ! i)"
  using assms by (simp add: transformEvents_eq nth_append)

lemma substring_code4:
  assumes "length mmdd = 4"
  shows "substring mmdd 0 2 = take 2 mmdd" "substring mmdd 2 4 = drop 2 mmdd"
  using assms by (simp_all add: substring_def)

lemma example_keys:
  "is_array_index ''1225''" "\<not> is_array_index ''0301''" "\<not> is_array_index ''2025-10-06''"
  by (simp_all add: is_array_index_def is_digit_def digits_value_def)

lemma example_entries:
  "Object_entries [(''0301'', ''Independence Day''), (''1225'', ''Christmas'')] =
     [(''1225'', ''Christmas''), (''0301'', ''Independence Day'')]"
  "Object_entries [(''2025-10-06'', ''Chuseok'')] = [(''2025-10-06'', ''Chuseok'')]"
  "Object_entries [(''0301'', ''Independence Day'')] = [(''0301'', ''Independence Day'')]"
  by (simp_all add: Object_entries_def example_keys)

lemma example_holidays_of:
  "holidays_of (Some example_settings) =
     ([(''1225'', ''Christmas''), (''0301'', ''Independence Day'')],
      [(''2025-10-06'', ''Chuseok'')])"
  by (simp add: holidays_of_def holiday_objects_def example_settings_def example_entries)

section \<open>Projection: the claims\<close>

text \<open>
  C4, as stated, fails for the holidays: \<^verbatim>\<open>Object.entries\<close> lists the code 1225,
  an array index, before the code 0301, which is none, whatever the order in which the
  settings give them. With 0301 "Independence Day" before 1225 "Christmas" in the
  settings, the output has Christmas first.
\<close>

theorem holiday_source_order_counterexample:
  "map event.title
     (transformEvents 2031 []
        (Some \<lparr>fixed_holidays = Some [(''0301'', ''Independence Day''), (''1225'', ''Christmas'')],
               variable_holidays = None, academic_year = Some 2025\<rparr>) []) =
     [''Christmas'', ''Independence Day''] \<and>
   map event.title
     (transformEvents 2031 []
        (Some \<lparr>fixed_holidays = Some [(''0301'', ''Independence Day''), (''1225'', ''Christmas'')],
               variable_holidays = None, academic_year = Some 2025\<rparr>) []) \<noteq>
     map snd [(''0301'', ''Independence Day''), (''1225'', ''Christmas'')]"
  by (simp add: transformEvents_eq holidays_of_def holiday_objects_def example_entries
      Object_entries_Nil fixed_holiday_event_def)

text \<open>
  C4, amended. In the output of the projection every background (holiday) entry stands
  before every foreground (schedule) entry. The foreground entries are the schedules in
  the order of the input list. The background entries are the fixed holidays and then
  the variable holidays, each in the order in which \<^verbatim>\<open>Object.entries\<close> lists the
  holiday object: a rearrangement of its properties in which those whose key is an
  array index come first, by ascending index, and the others follow in their order of
  creation; an object with no such key is listed in its order of creation.
\<close>

theorem projection_order:
  "(\<forall>i j. i < length (transformEvents now_year schedules settings departments) \<and>
          j < length (transformEvents now_year schedules settings departments) \<and>
          is_background (transformEvents now_year schedules settings departments ! i) \<and>
          \<not> is_background (transformEvents now_year schedules settings departments ! j)
          \<longrightarrow> i < j) \<and>
   filter (\<lambda>e. \<not> is_background e) (transformEvents now_year schedules settings departments) =
     map (schedule_event (deptMap_of departments)) schedules \<and>
   filter is_background (transformEvents now_year schedules settings departments) =
     map (fixed_holiday_event (yearStr_of now_year settings))
       (Object_entries (fst (holiday_objects settings))) @
     map variable_holiday_event (Object_entries (snd (holiday_objects settings))) \<and>
   (\<forall>obj :: (string \<times> string) list.
      mset (Object_entries obj) = mset obj \<and>
      Object_entries obj =
        filter (\<lambda>e. is_array_index (fst e)) (Object_entries obj) @
        filter (\<lambda>e. \<not> is_array_index (fst e)) obj \<and>
      sorted (map (\<lambda>e. digits_value (fst e))
        (filter (\<lambda>e. is_array_index (fst e)) (Object_entries obj))) \<and>
      ((\<forall>e \<in> set obj. \<not> is_array_index (fst e)) \<longrightarrow> Object_entries obj = obj))"
proof -
  let ?bg = "map (fixed_holiday_event (yearStr_of now_year settings))
       (Object_entries (fst (holiday_objects settings))) @
     map variable_holiday_event (Object_entries (snd (holiday_objects settings)))"
  let ?fg = "map (schedule_event (deptMap_of departments)) schedules"
  have e: "transformEvents now_year schedules settings departments = ?bg @ ?fg"
    by (simp add: transformEvents_eq holidays_of_def)
  have bg: "\<forall>x \<in> set ?bg. is_background x"
    by (auto simp: is_background_fixed is_background_variable)
  have fg: "\<forall>x \<in> set ?fg. \<not> is_background x"
    by (auto simp: not_background_schedule)
  have "\<forall>i j. i < length (?bg @ ?fg) \<and> j < length (?bg @ ?fg) \<and>
          is_background ((?bg @ ?fg) ! i) \<and> \<not> is_background ((?bg @ ?fg) ! j) \<longrightarrow> i < j"
  proof (intro allI impI)
    fix i j
    assume a: "i < length (?bg @ ?fg) \<and> j < length (?bg @ ?fg) \<and>
          is_background ((?bg @ ?fg) ! i) \<and> \<not> is_background ((?bg @ ?fg) ! j)"
    have i: "i < length ?bg"
    proof (rule ccontr)
      assume n: "\<not> i < length ?bg"
      then have "(?bg @ ?fg) ! i = ?fg ! (i - length ?bg)" by (simp only: nth_append if_False)
      moreover have "i - length ?bg < length ?fg" using a n by (simp only: length_append) linarith
      ultimately have "\<not> is_background ((?bg @ ?fg) ! i)" using fg by (metis nth_mem)
      with a show False by blast
    qed
    have j: "\<not> j < length ?bg"
    proof
      assume n: "j < length ?bg"
      then have "(?bg @ ?fg) ! j = ?bg ! j" by (simp only: nth_append if_True)
      then have "is_background ((?bg @ ?fg) ! j)" using bg n by (metis nth_mem)
      with a show False by blast
    qed
    from i j show "i < j" by linarith
  qed
  moreover have "filter is_background (?bg @ ?fg) = ?bg"
    using bg fg by (simp only: filter_append) (simp add: filter_id_conv filter_empty_conv)
  moreover have "filter (\<lambda>e. \<not> is_background e) (?bg @ ?fg) = ?fg"
    using bg fg by (simp only: filter_append) (simp add: filter_id_conv filter_empty_conv)
  moreover have "\<forall>obj :: (string \<times> string) list.
      mset (Object_entries obj) = mset obj \<and>
      Object_entries obj =
        filter (\<lambda>e. is_array_index (fst e)) (Object_entries obj) @
        filter (\<lambda>e. \<not> is_array_index (fst e)) obj \<and>
      sorted (map (\<lambda>e. digits_value (fst e))
        (filter (\<lambda>e. is_array_index (fst e)) (Object_entries obj))) \<and>
      ((\<forall>e \<in> set obj. \<not> is_array_index (fst e)) \<longrightarrow> Object_entries obj = obj)"
    using mset_Object_entries Object_entries_split Object_entries_sorted Object_entries_no_index
    by blast
  ultimately show ?thesis unfolding e by blast
qed

theorem projection_order_witness:
  "(let out = transformEvents 2031 example_schedules (Some example_settings) example_departments
    in 2 < length out \<and> 3 < length out \<and> is_background (out ! 2) \<and> \<not> is_background (out ! 3) \<and>
       (2::nat) < 3 \<and>
       map event.title (filter is_background out) = [''Christmas'', ''Independence Day'', ''Chuseok''] \<and>
       map event.id' (filter (\<lambda>e. \<not> is_background e) out) = [Some ''7'', Some ''8'', Some ''9'']) \<and>
   \<not> is_array_index ''2025-10-06'' \<and>
   Object_entries [(''2025-10-06'', ''Chuseok'')] = [(''2025-10-06'', ''Chuseok'')]"
proof -
  let ?out = "transformEvents 2031 example_schedules (Some example_settings) example_departments"
  have l: "length ?out = 6"
    by (simp add: transformEvents_eq example_holidays_of example_schedules_def)
  have b: "is_background (?out ! 2)" and f: "\<not> is_background (?out ! 3)"
    by (simp_all add: transformEvents_eq example_holidays_of example_schedules_def
        is_background_variable not_background_schedule)
  have ho: "holiday_objects (Some example_settings) =
      ([(''0301'', ''Independence Day''), (''1225'', ''Christmas'')], [(''2025-10-06'', ''Chuseok'')])"
    by (simp add: holiday_objects_def example_settings_def)
  have bg: "map event.title (map (fixed_holiday_event (yearStr_of 2031 (Some example_settings)))
                (Object_entries (fst (holiday_objects (Some example_settings)))) @
              map variable_holiday_event (Object_entries (snd (holiday_objects (Some example_settings)))))
            = [''Christmas'', ''Independence Day'', ''Chuseok'']"
    by (simp add: ho example_entries fixed_holiday_event_def variable_holiday_event_def)
  have fg: "map event.id' (map (schedule_event (deptMap_of example_departments)) example_schedules)
            = [Some ''7'', Some ''8'', Some ''9'']"
    by (simp add: example_schedules_def schedule_event_def Let_def)
  have n: "\<forall>e \<in> set [(''2025-10-06'', ''Chuseok'')]. \<not> is_array_index (fst e)"
    by (simp add: example_keys)
  from projection_order[of 2031 example_schedules "Some example_settings" example_departments]
  have p: "filter is_background ?out =
      map (fixed_holiday_event (yearStr_of 2031 (Some example_settings)))
        (Object_entries (fst (holiday_objects (Some example_settings)))) @
      map variable_holiday_event (Object_entries (snd (holiday_objects (Some example_settings))))"
    and q: "filter (\<lambda>e. \<not> is_background e) ?out =
      map (schedule_event (deptMap_of example_departments)) example_schedules"
    and r: "(\<forall>e \<in> set [(''2025-10-06'', ''Chuseok'')]. \<not> is_array_index (fst e)) \<longrightarrow>
      Object_entries [(''2025-10-06'', ''Chuseok'')] = [(''2025-10-06'', ''Chuseok'')]"
    by blast+
  show ?thesis
    unfolding Let_def p q bg fg using l b f n r by (simp add: example_keys)
qed

text \<open>
  C6. A schedule whose department id is the id of no department in the list still has
  its foreground entry, at its place after the holidays, with its own id, title and
  start, and with the default colour \<^verbatim>\<open>#3788d8\<close> as background and border colour.
  The projection is a total function: it has no failing branch.
\<close>

theorem unknown_department_default_color:
  assumes "i < length schedules"
    and "dept_id (schedules ! i) \<notin> department.id' ` set departments"
  shows
    "let out = transformEvents now_year schedules settings departments;
         k = length (fst (holidays_of settings)) + length (snd (holidays_of settings)) + i
     in k < length out \<and>
        event.id' (out ! k) = Some (schedule.id' (schedules ! i)) \<and>
        event.title (out ! k) = schedule.title (schedules ! i) \<and>
        start (out ! k) = schedule.start_date (schedules ! i) \<and>
        \<not> is_background (out ! k) \<and>
        backgroundColor (out ! k) = Some ''#3788d8'' \<and>
        borderColor (out ! k) = Some ''#3788d8''"
proof -
  have n: "deptMap_of departments (dept_id (schedules ! i)) = None"
    by (rule deptMap_of_unknown[OF assms(2)])
  show ?thesis
    unfolding Let_def transformEvents_nth_schedule(2)[OF assms(1)]
    using transformEvents_nth_schedule(1)[OF assms(1)]
    by (simp add: schedule_event_def n color_or_default_def is_background_def)
qed

theorem unknown_department_default_color_witness:
  "1 < length example_schedules \<and>
   dept_id (example_schedules ! 1) \<notin> department.id' ` set example_departments \<and>
   (let out = transformEvents 2031 example_schedules (Some example_settings) example_departments
    in 4 < length out \<and> event.id' (out ! 4) = Some ''8'' \<and> event.title (out ! 4) = ''Sports Day'' \<and>
       \<not> is_background (out ! 4) \<and>
       backgroundColor (out ! 4) = Some ''#3788d8'' \<and> borderColor (out ! 4) = Some ''#3788d8'')"
proof -
  have h1: "1 < length example_schedules" by (simp add: example_schedules_def)
  have h2: "dept_id (example_schedules ! 1) \<notin> department.id' ` set example_departments"
    by (simp add: example_schedules_def example_departments_def)
  have k: "length (fst (holidays_of (Some example_settings))) +
           length (snd (holidays_of (Some example_settings))) + 1 = 4"
    by (simp add: example_holidays_of)
  have s: "schedule.id' (example_schedules ! 1) = ''8''" "schedule.title (example_schedules ! 1) = ''Sports Day''"
    by (simp_all add: example_schedules_def)
  show ?thesis
    using unknown_department_default_color[OF h1 h2, of 2031 "Some example_settings"] h1 h2
    unfolding Let_def k s by simp
qed

text \<open>
  C9. When the settings carry a (non-zero) academic year, the entry pushed for the
  \<open>i\<close>-th fixed holiday that \<^verbatim>\<open>Object.entries\<close> lists, with a four-character code,
  is the \<open>i\<close>-th entry of the output: a full-day background entry named after the
  holiday whose start is the year, the first two characters of the code and its last
  two, joined by hyphens. So every fixed holiday of the settings with a four-character
  code has that entry in the output. The fixed holiday 0301 "Independence Day" with
  academic year 2025 alone gives exactly one entry, dated 2025-03-01.
\<close>

theorem fixed_holiday_on_academic_year:
  "(\<forall>i mmdd name st fixed y.
      settings = Some st \<and> fixed_holidays st = Some fixed \<and> academic_year st = Some y \<and> y \<noteq> 0 \<and>
      i < length fixed \<and> Object_entries fixed ! i = (mmdd, name) \<and> length mmdd = 4 \<longrightarrow>
      transformEvents now_year schedules settings departments ! i =
        \<lparr>event.id' = None, title = name,
         start = decimal y @ ''-'' @ take 2 mmdd @ ''-'' @ drop 2 mmdd,
         end' = None, display = Some ''background'', className = Some ''holiday-bg-event'',
         allDay = Some True, backgroundColor = None, borderColor = None,
         extendedProps = None\<rparr>) \<and>
   (\<forall>mmdd name st fixed y.
      settings = Some st \<and> fixed_holidays st = Some fixed \<and> academic_year st = Some y \<and> y \<noteq> 0 \<and>
      (mmdd, name) \<in> set fixed \<and> length mmdd = 4 \<longrightarrow>
        \<lparr>event.id' = None, title = name,
         start = decimal y @ ''-'' @ take 2 mmdd @ ''-'' @ drop 2 mmdd,
         end' = None, display = Some ''background'', className = Some ''holiday-bg-event'',
         allDay = Some True, backgroundColor = None, borderColor = None,
         extendedProps = None\<rparr>
        \<in> set (transformEvents now_year schedules settings departments)) \<and>
   transformEvents now_year []
      (Some \<lparr>fixed_holidays = Some [(''0301'', ''Independence Day'')],
             variable_holidays = None, academic_year = Some 2025\<rparr>) [] =
     [\<lparr>event.id' = None, title = ''Independence Day'', start = ''2025-03-01'',
       end' = None, display = Some ''background'', className = Some ''holiday-bg-event'',
       allDay = Some True, backgroundColor = None, borderColor = None,
       extendedProps = None\<rparr>]"
proof -
  have nth: "transformEvents now_year schedules settings departments ! i =
        \<lparr>event.id' = None, title = name,
         start = decimal y @ ''-'' @ take 2 mmdd @ ''-'' @ drop 2 mmdd,
         end' = None, display = Some ''background'', className = Some ''holiday-bg-event'',
         allDay = Some True, backgroundColor = None, borderColor = None,
         extendedProps = None\<rparr>"
    if a: "settings = Some st" "fixed_holidays st = Some fixed" "academic_year st = Some y" "y \<noteq> 0"
      "i < length fixed" "Object_entries fixed ! i = (mmdd, name)" "length mmdd = 4"
    for i mmdd name st fixed y
  proof -
    have h: "fst (holidays_of settings) = Object_entries fixed"
      and ys: "yearStr_of now_year settings = decimal y"
      using a by (simp_all add: holidays_of_def holiday_objects_def yearStr_of_def)
    have "i < length (fst (holidays_of settings))"
      using a(5) by (simp add: h length_Object_entries)
    from transformEvents_nth_fixed[OF this, of now_year schedules departments]
    have "transformEvents now_year schedules settings departments ! i
        = fixed_holiday_event (decimal y) (mmdd, name)"
      by (simp add: h ys a(6))
    then show ?thesis
      using a(7) by (simp add: fixed_holiday_event_def substring_code4)
  qed
  have mem: "\<lparr>event.id' = None, title = name,
         start = decimal y @ ''-'' @ take 2 mmdd @ ''-'' @ drop 2 mmdd,
         end' = None, display = Some ''background'', className = Some ''holiday-bg-event'',
         allDay = Some True, backgroundColor = None, borderColor = None,
         extendedProps = None\<rparr>
        \<in> set (transformEvents now_year schedules settings departments)"
    if a: "settings = Some st" "fixed_holidays st = Some fixed" "academic_year st = Some y" "y \<noteq> 0"
      "(mmdd, name) \<in> set fixed" "length mmdd = 4"
    for mmdd name st fixed y
  proof -
    have "(mmdd, name) \<in> set (Object_entries fixed)"
      using a(5) by (simp add: set_Object_entries)
    then obtain i where i: "i < length (Object_entries fixed)" "Object_entries fixed ! i = (mmdd, name)"
      by (auto simp: in_set_conv_nth)
    then have il: "i < length fixed" by (simp add: length_Object_entries)
    have "i < length (transformEvents now_year schedules settings departments)"
      using il a(1,2)
      by (simp add: transformEvents_eq holidays_of_def holiday_objects_def length_Object_entries)
    then have "transformEvents now_year schedules settings departments ! i
        \<in> set (transformEvents now_year schedules settings departments)"
      by (rule nth_mem)
    then show ?thesis using nth[OF a(1-4) il i(2) a(6)] by simp
  qed
  have d: "decimal 2025 = ''2025''" by code_simp
  have ex: "transformEvents now_year []
      (Some \<lparr>fixed_holidays = Some [(''0301'', ''Independence Day'')],
             variable_holidays = None, academic_year = Some 2025\<rparr>) [] =
     [\<lparr>event.id' = None, title = ''Independence Day'', start = ''2025-03-01'',
       end' = None, display = Some ''background'', className = Some ''holiday-bg-event'',
       allDay = Some True, backgroundColor = None, borderColor = None,
       extendedProps = None\<rparr>]"
    by (simp add: transformEvents_eq holidays_of_def holiday_objects_def yearStr_of_def
        fixed_holiday_event_def substring_def d example_entries Object_entries_Nil)
  show ?thesis
    using nth mem ex by blast
qed

theorem fixed_holiday_on_academic_year_witness:
  "1 < length [(''0301'', ''Independence Day''), (''1225'', ''Christmas'')] \<and>
   Object_entries [(''0301'', ''Independence Day''), (''1225'', ''Christmas'')] ! 1 =
     (''0301'', ''Independence Day'') \<and>
   length ''0301'' = 4 \<and>
   start (transformEvents 2031 example_schedules (Some example_settings) example_departments ! 1)
     = ''2025-03-01'' \<and>
   is_background (transformEvents 2031 example_schedules (Some example_settings) example_departments ! 1) \<and>
   allDay (transformEvents 2031 example_schedules (Some example_settings) example_departments ! 1)
     = Some True"
proof -
  have d: "decimal 2025 = ''2025''" by code_simp
  have o: "Object_entries [(''0301'', ''Independence Day''), (''1225'', ''Christmas'')] ! 1 =
     (''0301'', ''Independence Day'')"
    by (simp add: example_entries)
  have g: "Some example_settings = Some example_settings \<and>
      fixed_holidays example_settings = Some [(''0301'', ''Independence Day''), (''1225'', ''Christmas'')] \<and>
      academic_year example_settings = Some 2025 \<and> (2025::nat) \<noteq> 0 \<and>
      1 < length [(''0301'', ''Independence Day''), (''1225'', ''Christmas'')] \<and>
      Object_entries [(''0301'', ''Independence Day''), (''1225'', ''Christmas'')] ! 1 =
        (''0301'', ''Independence Day'') \<and>
      length ''0301'' = 4"
    using o by (simp add: example_settings_def)
  from fixed_holiday_on_academic_year[of "Some example_settings" 2031 example_schedules example_departments]
  have "transformEvents 2031 example_schedules (Some example_settings) example_departments ! 1 =
        \<lparr>event.id' = None, title = ''Independence Day'',
         start = decimal 2025 @ ''-'' @ take 2 ''0301'' @ ''-'' @ drop 2 ''0301'',
         end' = None, display = Some ''background'', className = Some ''holiday-bg-event'',
         allDay = Some True, backgroundColor = None, borderColor = None,
         extendedProps = None\<rparr>"
    using g by blast
  then show ?thesis using o by (simp add: d is_background_def)
qed

text \<open>
  C8, as stated, fails: with fixed holidays and no academic year in the settings, the
  year of the entries is the year of the clock, so the same three inputs give different
  output in 2025 and in 2026.
\<close>

theorem clock_year_counterexample:
  "transformEvents 2025 []
      (Some \<lparr>fixed_holidays = Some [(''0301'', ''Independence Day'')],
             variable_holidays = None, academic_year = None\<rparr>) [] \<noteq>
   transformEvents 2026 []
      (Some \<lparr>fixed_holidays = Some [(''0301'', ''Independence Day'')],
             variable_holidays = None, academic_year = None\<rparr>) []"
proof -
  have d: "decimal 2025 = ''2025''" "decimal 2026 = ''2026''" by code_simp+
  show ?thesis
    by (simp add: transformEvents_eq holidays_of_def holiday_objects_def yearStr_of_def
        fixed_holiday_event_def substring_def d example_entries Object_entries_Nil)
qed

text \<open>
  C8, amended. Two calls with the same schedules, settings and departments give the
  same output whenever the settings do not make the projection use the clock (null
  settings, a non-zero academic year, or no fixed holidays), or the two calls fall in
  the same calendar year.
\<close>

theorem transformEvents_deterministic:
  "(clock_free settings \<or> now_year = now_year') \<longrightarrow>
   transformEvents now_year schedules settings departments =
   transformEvents now_year' schedules settings departments"
  by (auto simp: transformEvents_eq clock_free_def holidays_of_def holiday_objects_def
      yearStr_of_def Object_entries_Nil split: option.splits)

theorem transformEvents_deterministic_witness:
  "clock_free (Some example_settings) \<and>
   transformEvents 2025 example_schedules (Some example_settings) example_departments =
   transformEvents 2031 example_schedules (Some example_settings) example_departments"
proof -
  have c: "clock_free (Some example_settings)"
    by (simp add: clock_free_def example_settings_def)
  show ?thesis
    using transformEvents_deterministic[of "Some example_settings" 2025 2031 example_schedules example_departments] c
    by simp
qed

section \<open>Properties of the search\<close>

lemma starts_with_iff: "starts_with s q \<longleftrightarrow> length q \<le> length s \<and> take (length q) s = q"
  by (induction s q rule: starts_with.induct) auto

lemma includes_iff:
  "includes' s q \<longleftrightarrow> (\<exists>i. i + length q \<le> length s \<and> take (length q) (drop i s) = q)"
proof (induction s)
  case Nil
  show ?case by auto
next
  case (Cons a s)
  have "(\<exists>i. i + length q \<le> length (a # s) \<and> take (length q) (drop i (a # s)) = q) \<longleftrightarrow>
        (length q \<le> length (a # s) \<and> take (length q) (a # s) = q) \<or>
        (\<exists>i. i + length q \<le> length s \<and> take (length q) (drop i s) = q)"
    (is "?L \<longleftrightarrow> ?A \<or> ?B")
  proof
    assume ?L
    then obtain i where i: "i + length q \<le> length (a # s)" "take (length q) (drop i (a # s)) = q"
      by blast
    show "?A \<or> ?B"
    proof (cases i)
      case 0
      then show ?thesis using i by simp
    next
      case (Suc j)
      then have "j + length q \<le> length s \<and> take (length q) (drop j s) = q" using i by simp
      then show ?thesis by blast
    qed
  next
    assume "?A \<or> ?B"
    then show ?L
    proof
      assume ?A
      then have "0 + length q \<le> length (a # s) \<and> take (length q) (drop 0 (a # s)) = q" by simp
      then show ?L by blast
    next
      assume ?B
      then obtain j where "j + length q \<le> length s" "take (length q) (drop j s) = q" by blast
      then have "Suc j + length q \<le> length (a # s) \<and> take (length q) (drop (Suc j) (a # s)) = q"
        by simp
      then show ?L by blast
    qed
  qed
  then show ?case using Cons.IH by (simp add: starts_with_iff)
qed

lemma lower_char_idem: "lower_char (lower_char c) = lower_char c"
proof -
  have b: "(of_char c :: nat) < 256" by (rule nat_of_char_less_256)
  show ?thesis
    using b by (auto simp: lower_char_def Let_def)
qed

lemma toLowerCase_idem: "toLowerCase (toLowerCase s) = toLowerCase s"
  by (simp add: toLowerCase_def lower_char_idem)

lemma set_trim: "set (trim s) \<subseteq> set s"
proof -
  have "set (trim s) = set (dropWhile is_space (rev (dropWhile is_space s)))"
    by (simp add: trim_def)
  also have "\<dots> \<subseteq> set (rev (dropWhile is_space s))" by (rule set_dropWhileD[THEN subsetI])
  also have "\<dots> \<subseteq> set s" using set_dropWhileD[of _ is_space s] by auto
  finally show ?thesis .
qed

lemma toLowerCase_trim: "toLowerCase (trim (toLowerCase s)) = trim (toLowerCase s)"
proof -
  have "\<forall>c \<in> set (trim (toLowerCase s)). lower_char c = c"
    using set_trim[of "toLowerCase s"] by (auto simp: toLowerCase_def lower_char_idem)
  then show ?thesis unfolding toLowerCase_def[of "trim _"] by (simp add: map_idI)
qed

lemma ci_contains_iff:
  "ci_contains t q \<longleftrightarrow> includes' (toLowerCase t) (toLowerCase q)"
proof -
  have "ci_contains t q \<longleftrightarrow> (\<exists>i. i < Suc (length t) \<and> ci_occurs_at t q i)"
    by (simp only: ci_contains_def list_ex_iff set_upt Bex_def atLeastLessThan_iff le0 simp_thms)
  also have "\<dots> \<longleftrightarrow> (\<exists>i. ci_occurs_at t q i)"
  proof
    assume "\<exists>i. i < Suc (length t) \<and> ci_occurs_at t q i"
    then show "\<exists>i. ci_occurs_at t q i" by blast
  next
    assume "\<exists>i. ci_occurs_at t q i"
    then obtain i where i: "ci_occurs_at t q i" by blast
    then have "i < Suc (length t)" by (simp add: ci_occurs_at_def)
    with i show "\<exists>i. i < Suc (length t) \<and> ci_occurs_at t q i" by blast
  qed
  also have "\<dots> \<longleftrightarrow> (\<exists>i. i + length q \<le> length t \<and>
          toLowerCase (take (length q) (drop i t)) = toLowerCase q)"
    by (simp add: ci_occurs_at_def substring_def)
  also have "\<dots> \<longleftrightarrow> includes' (toLowerCase t) (toLowerCase q)"
    by (simp add: includes_iff toLowerCase_def take_map drop_map)
  finally show ?thesis .
qed

section \<open>Search: the claim\<close>

text \<open>
  C10. Let the query be the text of the search box, lower-cased and trimmed, as the
  listener computes it. When it has at least two characters, the listener's matches
  are exactly the schedules whose title, or whose description when there is one,
  contains the query as a substring when case is ignored, in the order of the schedule
  list.
\<close>

theorem search_case_insensitive_in_order:
  "(let query = trim (toLowerCase value)
    in 2 \<le> length query \<longrightarrow>
       search_input schedules value =
         Some (filter (\<lambda>s. ci_contains (schedule.title s) query \<or>
                           (\<exists>d. schedule.description s = Some d \<and> ci_contains d query))
                 schedules))"
proof -
  let ?q = "trim (toLowerCase value)"
  have q: "toLowerCase ?q = ?q" by (rule toLowerCase_trim)
  have c: "\<And>t. ci_contains t ?q \<longleftrightarrow> includes' (toLowerCase t) ?q"
    by (simp only: ci_contains_iff q)
  have n: "2 \<le> length ?q \<Longrightarrow> \<not> includes' (toLowerCase []) ?q"
    by (cases ?q) (auto simp: toLowerCase_def)
  have e: "2 \<le> length ?q \<Longrightarrow>
     (includes' (toLowerCase (schedule.title s)) ?q \<or>
        (case schedule.description s of None \<Rightarrow> False
         | Some d \<Rightarrow> d \<noteq> [] \<and> includes' (toLowerCase d) ?q)) =
     (ci_contains (schedule.title s) ?q \<or>
        (\<exists>d. schedule.description s = Some d \<and> ci_contains d ?q))" for s
    using n by (cases "schedule.description s") (auto simp only: c option.case option.inject)
  have f: "2 \<le> length ?q \<Longrightarrow>
     search_matches schedules ?q =
       filter (\<lambda>s. ci_contains (schedule.title s) ?q \<or>
                   (\<exists>d. schedule.description s = Some d \<and> ci_contains d ?q)) schedules"
    unfolding search_matches_def by (rule filter_cong[OF refl]) (rule e)
  show ?thesis
  proof (unfold Let_def, intro impI)
    assume l: "2 \<le> length ?q"
    then have "\<not> length ?q < 2" by simp
    then show "search_input schedules value =
         Some (filter (\<lambda>s. ci_contains (schedule.title s) ?q \<or>
                           (\<exists>d. schedule.description s = Some d \<and> ci_contains d ?q))
                 schedules)"
      unfolding search_input_def Let_def by (simp only: if_False f[OF l])
  qed
qed

theorem search_case_insensitive_in_order_witness:
  "2 \<le> length (trim (toLowerCase ''  MEET '')) \<and>
   search_input example_schedules ''  MEET '' =
     Some (filter (\<lambda>s. ci_contains (schedule.title s) (trim (toLowerCase ''  MEET '')) \<or>
                       (\<exists>d. schedule.description s = Some d \<and>
                            ci_contains d (trim (toLowerCase ''  MEET ''))))
             example_schedules) \<and>
   map schedule.id' (the (search_input example_schedules ''  MEET '')) = [''7'', ''8'']"
proof -
  have q: "trim (toLowerCase ''  MEET '') = ''meet''" by code_simp
  have h: "2 \<le> length (trim (toLowerCase ''  MEET ''))" unfolding q by simp
  have r: "map schedule.id' (the (search_input example_schedules ''  MEET '')) = [''7'', ''8'']"
    by code_simp
  show ?thesis
    using search_case_insensitive_in_order[of "''  MEET ''" example_schedules] h r
    unfolding Let_def by blast
qed

end
